theory Spec2Isabelle
  imports Complex_Main
begin

section \<open>Values of the objective\<close>

text \<open>
  The objective of the line search returns a floating-point number: a finite number, one
  of the two infinities, or NaN. Step sizes and bracket points are modelled as exact
  reals: rounding is not part of the model, only the special values of the objective are.
\<close>

datatype fval = Fin real | PInf | NInf | NaN

text \<open>\<open>T.lt\<close> and \<open>T.gt\<close>: the IEEE comparisons, false as soon as one side is NaN.\<close>

fun T_lt :: "fval \<Rightarrow> fval \<Rightarrow> bool" where
  "T_lt (Fin x) (Fin y) = (x < y)"
| "T_lt (Fin x) PInf = True"
| "T_lt (Fin x) NInf = False"
| "T_lt (Fin x) NaN = False"
| "T_lt PInf y = False"
| "T_lt NInf (Fin y) = True"
| "T_lt NInf PInf = True"
| "T_lt NInf NInf = False"
| "T_lt NInf NaN = False"
| "T_lt NaN y = False"

definition T_gt :: "fval \<Rightarrow> fval \<Rightarrow> bool" where
  "T_gt x y = T_lt y x"

section \<open>The scan loop\<close>

datatype error = ValueError string | ScanNoSteps | ScanNegativeSteps | IndexError

type_synonym objective = "real \<Rightarrow> fval"

text \<open>
  An iteration of a scan returns the new loop state, the value of its stopping rule, and
  the points at which it evaluated the objective.
\<close>

type_synonym 's iteration = "('s \<times> bool) \<times> real list"

text \<open>
  \<open>theano.scan(fn, outputs_info, n_steps)\<close> with an \<open>until\<close> condition: the body runs
  on the previous output, then its stopping rule is looked at; the loop ends when the
  rule holds or when \<open>n_steps\<close> iterations have run. The result is the sequence of the
  outputs, one entry for each iteration that ran, together with the log of the points at
  which the objective was evaluated.
\<close>

fun scan_until :: "('s \<Rightarrow> 's iteration) \<Rightarrow> 's \<Rightarrow> nat \<Rightarrow> 's list \<times> real list" where
  "scan_until fn s 0 = ([], [])"
| "scan_until fn s (Suc n) =
     (case fn s of ((s', stoprule), evals) \<Rightarrow>
        if stoprule then ([s'], evals)
        else (case scan_until fn s' n of (outputs, evals') \<Rightarrow> (s' # outputs, evals @ evals')))"

text \<open>
  The number of steps is an integer. The library applies the body once when
  \<open>n_steps\<close> is 1 or -1, runs the loop for a larger \<open>n_steps\<close>, and has no result for
  a scan of no step or of another negative number of steps: the model gives the errors
  \<open>ScanNoSteps\<close> for \<open>n_steps = 0\<close> and \<open>ScanNegativeSteps\<close> for \<open>n_steps < -1\<close>.
\<close>

definition scan :: "('s \<Rightarrow> 's iteration) \<Rightarrow> 's \<Rightarrow> int \<Rightarrow> (error + 's list) \<times> real list" where
  "scan fn outputs_info n_steps =
     (if n_steps = 0 then (Inl ScanNoSteps, [])
      else if n_steps < - 1 then (Inl ScanNegativeSteps, [])
      else (case scan_until fn outputs_info (nat \<bar>n_steps\<bar>) of
              (outputs, evals) \<Rightarrow> (Inr outputs, evals)))"

text \<open>The index \<open>[-1]\<close>: the last entry, an error on an empty sequence.\<close>

definition last_entry :: "'a list \<Rightarrow> error + 'a" where
  "last_entry xs = (case xs of [] \<Rightarrow> Inl IndexError | _ # _ \<Rightarrow> Inr (last xs))"

section \<open>interval_location\<close>

fun find_right_bound :: "objective \<Rightarrow> fval \<times> real \<Rightarrow> real \<Rightarrow> (fval \<times> real) iteration" where
  "find_right_bound f (prev_func_output, step) maxstep =
     (let func_output = f step;
          is_output_decrease = T_gt prev_func_output func_output;
          step' = (if is_output_decrease then min (2 * step) maxstep else step);
          is_output_increse = T_lt prev_func_output func_output;
          stoprule = (is_output_increse \<or> step' > maxstep)
      in (((func_output, step'), stoprule), [step]))"

definition interval_location :: "objective \<Rightarrow> real \<Rightarrow> real \<Rightarrow> int \<Rightarrow> (error + real) \<times> real list" where
  "interval_location f minstep maxstep maxiter =
     (case scan (\<lambda>s. find_right_bound f s maxstep) (PInf, minstep) maxiter of
        (Inl e, evals) \<Rightarrow> (Inl e, evals)
      | (Inr outputs, evals) \<Rightarrow> (last_entry (map snd outputs), evals))"

section \<open>golden_search\<close>

text \<open>
  The ratio is taken as the exact number \<open>(sqrt 5 - 1) / 2\<close>, as the arithmetic is taken
  as exact. The number that the program holds for it is \<open>golden_ratio_double\<close> below.
\<close>

definition golden_ratio :: real where
  "golden_ratio = (sqrt 5 - 1) / 2"

type_synonym bracket = "real \<times> real \<times> real \<times> real"

fun interval_reduction :: "objective \<Rightarrow> bracket \<Rightarrow> real \<Rightarrow> bracket iteration" where
  "interval_reduction f (a, b, c, d) tol =
     (let fc = f c;
          fd = f d;
          abcd = (if T_lt fc fd
                  then (a, d, d - golden_ratio * (d - a), c)
                  else (c, b, d, c + golden_ratio * (b - c)));
          stoprule = (case abcd of (a', b', c', d') \<Rightarrow> \<bar>c' - d'\<bar> < tol)
      in ((abcd, stoprule), [c, d]))"

definition initial_bracket :: "real \<Rightarrow> bracket" where
  "initial_bracket maxstep =
     (let a = 0;
          b = maxstep;
          c = b - golden_ratio * (b - a);
          d = a + golden_ratio * (b - a)
      in (a, b, c, d))"

definition golden_search :: "objective \<Rightarrow> real \<Rightarrow> int \<Rightarrow> real \<Rightarrow> (error + real) \<times> real list" where
  "golden_search f maxstep maxiter tol =
     (case scan (\<lambda>s. interval_reduction f s tol) (initial_bracket maxstep) maxiter of
        (Inl e, evals) \<Rightarrow> (Inl e, evals)
      | (Inr outputs, evals) \<Rightarrow>
          (case last_entry outputs of
             Inl e \<Rightarrow> (Inl e, evals)
           | Inr (a, b, c, d) \<Rightarrow> (Inr ((a + b) / 2), evals)))"

section \<open>The ratio in double precision\<close>

text \<open>
  The program computes the ratio in floating point: in double precision
  \<open>asfloat((math.sqrt(5) - 1) / 2)\<close> is 0.6180339887498949, the number
  \<open>347922205179541 / 2 ^ 49\<close>. Unlike \<open>golden_ratio\<close> it is not a root of
  \<open>q * q = 1 - q\<close>.
\<close>

definition golden_ratio_double :: real where
  "golden_ratio_double = 347922205179541 / 2 ^ 49"

text \<open>
  \<open>interval_reduction\<close>, the initial bracket and the scan of \<open>golden_search\<close>, with the
  ratio \<open>q\<close> that the closure reads as a parameter. At \<open>golden_ratio\<close> they are the
  functions above.
\<close>

fun interval_reduction_with :: "real \<Rightarrow> objective \<Rightarrow> bracket \<Rightarrow> real \<Rightarrow> bracket iteration" where
  "interval_reduction_with q f (a, b, c, d) tol =
     (let fc = f c;
          fd = f d;
          abcd = (if T_lt fc fd
                  then (a, d, d - q * (d - a), c)
                  else (c, b, d, c + q * (b - c)));
          stoprule = (case abcd of (a', b', c', d') \<Rightarrow> \<bar>c' - d'\<bar> < tol)
      in ((abcd, stoprule), [c, d]))"

definition initial_bracket_with :: "real \<Rightarrow> real \<Rightarrow> bracket" where
  "initial_bracket_with q maxstep =
     (let a = 0;
          b = maxstep;
          c = b - q * (b - a);
          d = a + q * (b - a)
      in (a, b, c, d))"

definition golden_scan_with ::
  "real \<Rightarrow> objective \<Rightarrow> real \<Rightarrow> int \<Rightarrow> real \<Rightarrow> (error + bracket list) \<times> real list" where
  "golden_scan_with q f maxstep maxiter tol =
     scan (\<lambda>s. interval_reduction_with q f s tol) (initial_bracket_with q maxstep) maxiter"

section \<open>fmin_golden_search\<close>

fun check_params :: "(string \<times> real) list \<Rightarrow> error option" where
  "check_params [] = None"
| "check_params ((param_name, param_value) # params) =
     (if param_value \<le> 0
      then Some (ValueError (''Parameter `'' @ param_name @ ''` should be greater than zero.''))
      else check_params params)"

definition fmin_golden_search ::
  "objective \<Rightarrow> real \<Rightarrow> real \<Rightarrow> int \<Rightarrow> real \<Rightarrow> (error + real) \<times> real list" where
  "fmin_golden_search f minstep maxstep maxiter tol =
     (case check_params [(''maxiter'', of_int maxiter), (''minstep'', minstep),
                         (''maxstep'', maxstep), (''tol'', tol)] of
        Some e \<Rightarrow> (Inl e, [])
      | None \<Rightarrow>
          if minstep \<ge> maxstep
          then (Inl (ValueError ''`minstep` should be smaller than `maxstep`''), [])
          else (case interval_location f minstep maxstep maxiter of
                  (Inl e, evals) \<Rightarrow> (Inl e, evals)
                | (Inr maxstep', evals) \<Rightarrow>
                    (case golden_search f maxstep' maxiter tol of
                       (best_step, evals') \<Rightarrow> (best_step, evals @ evals'))))"

section \<open>LinearSearch\<close>

datatype search_method = golden | brent

text \<open>
  The optimizer's mutable state: the value of every shared variable (read with
  \<open>get_value\<close>, written with \<open>set_value\<close>) and the value of the shared step
  \<open>self.variables.step\<close>.
\<close>

record ('k, 'v) network =
  var_value :: "'k \<Rightarrow> 'v"
  step_value :: real

text \<open>
  The configuration of a \<open>LinearSearch\<close> and its collaborators: the variables of
  \<open>init_train_updates()\<close>, and the compiled methods \<open>train_epoch\<close> and
  \<open>prediction_error\<close> on the epoch's fixed input and target.
\<close>

record ('k, 'v) linear_search =
  self_tol :: real
  self_maxiter :: int
  self_search_method :: search_method
  self_train_params :: "'k list"
  self_train_epoch :: "('k, 'v) network \<Rightarrow> ('k, 'v) network"
  self_prediction_error :: "('k, 'v) network \<Rightarrow> fval"

definition np_isnan :: "fval \<Rightarrow> bool" where
  "np_isnan x = (x = NaN)"

definition np_where :: "bool \<Rightarrow> 'a \<Rightarrow> 'a \<Rightarrow> 'a" where
  "np_where c x y = (if c then x else y)"

definition set_value :: "'k \<Rightarrow> 'v \<Rightarrow> ('k, 'v) network \<Rightarrow> ('k, 'v) network" where
  "set_value param v net = net\<lparr>var_value := (var_value net)(param := v)\<rparr>"

text \<open>The loop at the head of \<open>setup_new_step\<close>, over \<open>zip(param_defaults, params)\<close>.\<close>

definition reset_params :: "'k list \<Rightarrow> 'v list \<Rightarrow> ('k, 'v) network \<Rightarrow> ('k, 'v) network" where
  "reset_params params param_defaults net =
     fold (\<lambda>(param_default, param). set_value param param_default)
       (zip param_defaults params) net"

definition setup_new_step ::
  "('k, 'v) linear_search \<Rightarrow> 'k list \<Rightarrow> 'v list \<Rightarrow> real \<Rightarrow> ('k, 'v) network
     \<Rightarrow> fval \<times> ('k, 'v) network" where
  "setup_new_step self params param_defaults new_step net =
     (let net1 = reset_params params param_defaults net;
          net2 = net1\<lparr>step_value := new_step\<rparr>;
          net3 = self_train_epoch self net2;
          error = self_prediction_error self net3
      in (np_where (np_isnan error) PInf error, net3))"

text \<open>
  \<open>scipy.optimize.minimize_scalar\<close> as its caller sees it: it either returns its
  answer \<open>res.x\<close>, or calls the objective at a point of its choice and goes on
  according to the value it gets back. It always returns after finitely many calls.
\<close>

datatype minimizer = Result real | Trial real "fval \<Rightarrow> minimizer"

primrec run_minimizer ::
  "minimizer \<Rightarrow> (real \<Rightarrow> 'st \<Rightarrow> fval \<times> 'st) \<Rightarrow> 'st \<Rightarrow> real \<times> 'st" where
  "run_minimizer (Result x) objective st = (x, st)"
| "run_minimizer (Trial x k) objective st =
     (case objective x st of (y, st') \<Rightarrow> run_minimizer (k y) objective st')"

definition train_epoch ::
  "('k, 'v) linear_search \<Rightarrow> (real \<Rightarrow> search_method \<Rightarrow> real \<Rightarrow> int \<Rightarrow> minimizer)
     \<Rightarrow> ('k, 'v) network \<Rightarrow> fval \<times> ('k, 'v) network" where
  "train_epoch self minimize_scalar net =
     (let params = self_train_params self;
          param_defaults = map (var_value net) params;
          res = minimize_scalar (self_tol self) (self_search_method self)
                  (self_tol self) (self_maxiter self)
      in case run_minimizer res (setup_new_step self params param_defaults) net of
           (res_x, net') \<Rightarrow> setup_new_step self params param_defaults res_x net')"

section \<open>The golden-section rule in the words of the specification\<close>






section \<open>Invariants\<close>

text \<open>The interior points of a bracket are its golden-section points.\<close>

definition golden_bracket :: "bracket \<Rightarrow> bool" where
  "golden_bracket br =
     (case br of (a, b, c, d) \<Rightarrow>
        c = b - golden_ratio * (b - a) \<and> d = a + golden_ratio * (b - a))"

definition width :: "bracket \<Rightarrow> real" where
  "width br = (case br of (a, b, c, d) \<Rightarrow> b - a)"

text \<open>The bracket stays inside the interval from 0 to the bound.\<close>

definition bracket_within :: "real \<Rightarrow> bracket \<Rightarrow> bool" where
  "bracket_within bound br =
     (case br of (a, b, c, d) \<Rightarrow> golden_bracket br \<and> 0 \<le> a \<and> a \<le> b \<and> b \<le> bound)"

text \<open>The bracket of a strictly unimodal objective keeps the minimiser.\<close>

definition bracket_around :: "real \<Rightarrow> real \<Rightarrow> bracket \<Rightarrow> bool" where
  "bracket_around m bound br =
     (case br of (a, b, c, d) \<Rightarrow> bracket_within bound br \<and> a \<le> m \<and> m \<le> b)"

text \<open>
  Two states of the optimizer that agree on every variable outside the trainable
  parameters.
\<close>

definition same_elsewhere :: "'k list \<Rightarrow> ('k, 'v) network \<Rightarrow> ('k, 'v) network \<Rightarrow> bool" where
  "same_elsewhere params net0 net = (\<forall>k. k \<notin> set params \<longrightarrow> var_value net k = var_value net0 k)"

section \<open>Example objectives and optimizers\<close>

definition rising_objective :: objective where
  "rising_objective x = Fin x"

definition falling_objective :: objective where
  "falling_objective x = Fin (- x)"

definition flat_objective :: objective where
  "flat_objective x = Fin 0"

definition parabola_objective :: objective where
  "parabola_objective x = Fin ((x - 1 / 10)\<^sup>2)"

definition parabola10_objective :: objective where
  "parabola10_objective x = Fin ((x - 10)\<^sup>2)"

definition example_net :: "(nat, real) network" where
  "example_net = \<lparr>var_value = (\<lambda>k. 1), step_value = 0\<rparr>"

text \<open>A training update that moves the variables 0 and 1 down by the step.\<close>

definition example_update :: "(nat, real) network \<Rightarrow> (nat, real) network" where
  "example_update net =
     net\<lparr>var_value := (\<lambda>k. if k = 0 \<or> k = 1 then var_value net k - step_value net
                             else var_value net k)\<rparr>"

definition example_error :: "(nat, real) network \<Rightarrow> fval" where
  "example_error net = Fin ((var_value net 0)\<^sup>2)"

definition diverged_error :: "(nat, real) network \<Rightarrow> fval" where
  "diverged_error net = NInf"

definition nan_error :: "(nat, real) network \<Rightarrow> fval" where
  "nan_error net = NaN"

definition example_search :: "(nat, real) linear_search" where
  "example_search =
     \<lparr>self_tol = 1 / 10, self_maxiter = 1024, self_search_method = golden,
      self_train_params = [0, 1], self_train_epoch = example_update,
      self_prediction_error = example_error\<rparr>"

definition diverged_search :: "(nat, real) linear_search" where
  "diverged_search = example_search\<lparr>self_prediction_error := diverged_error\<rparr>"

definition nan_search :: "(nat, real) linear_search" where
  "nan_search = example_search\<lparr>self_prediction_error := nan_error\<rparr>"

text \<open>A minimizer of two trials that answers with the better of the two steps.\<close>

definition example_minimize :: "real \<Rightarrow> search_method \<Rightarrow> real \<Rightarrow> int \<Rightarrow> minimizer" where
  "example_minimize tol method xtol maxiter =
     Trial 2 (\<lambda>y. Trial (1 / 2) (\<lambda>y'. Result (if T_lt y' y then 1 / 2 else 2)))"

section \<open>Properties of the scan loop\<close>

lemma scan_until_Suc_stop:
  "fn s = ((s', True), ev) \<Longrightarrow> scan_until fn s (Suc n) = ([s'], ev)"
  by simp

lemma scan_until_Suc_go:
  "fn s = ((s', False), ev) \<Longrightarrow>
   scan_until fn s (Suc n) = (s' # fst (scan_until fn s' n), ev @ snd (scan_until fn s' n))"
  by (simp split: prod.splits)

declare scan_until.simps(2) [simp del]

lemma scan_until_length: "length (fst (scan_until fn s n)) \<le> n"
proof (induction n arbitrary: s)
  case 0
  show ?case by simp
next
  case (Suc n)
  obtain s' stop ev where fn: "fn s = ((s', stop), ev)"
    by (metis surj_pair)
  show ?case
  proof (cases stop)
    case True
    with fn show ?thesis by (simp add: scan_until_Suc_stop)
  next
    case False
    with fn Suc.IH [of s'] show ?thesis by (simp add: scan_until_Suc_go)
  qed
qed

lemma scan_until_nonempty: "0 < n \<Longrightarrow> fst (scan_until fn s n) \<noteq> []"
proof (cases n)
  case 0
  assume "0 < n"
  with 0 show ?thesis by simp
next
  case (Suc m)
  obtain s' stop ev where fn: "fn s = ((s', stop), ev)"
    by (metis surj_pair)
  with Suc show ?thesis
    by (cases stop) (simp_all add: scan_until_Suc_stop scan_until_Suc_go)
qed

lemma scan_until_log_length:
  assumes "\<And>s. length (snd (fn s)) \<le> k"
  shows "length (snd (scan_until fn s n)) \<le> k * n"
proof (induction n arbitrary: s)
  case 0
  show ?case by simp
next
  case (Suc n)
  obtain s' stop ev where fn: "fn s = ((s', stop), ev)"
    by (metis surj_pair)
  have ev: "length ev \<le> k" using assms [of s] fn by simp
  show ?case
  proof (cases stop)
    case True
    with fn ev show ?thesis by (simp add: scan_until_Suc_stop)
  next
    case False
    with fn ev Suc.IH [of s'] show ?thesis by (simp add: scan_until_Suc_go)
  qed
qed

lemma scan_until_invariant:
  assumes "P s"
    and "\<And>s s' stop ev. P s \<Longrightarrow> fn s = ((s', stop), ev) \<Longrightarrow> P s'"
  shows "\<forall>x \<in> set (fst (scan_until fn s n)). P x"
  using assms(1)
proof (induction n arbitrary: s)
  case 0
  show ?case by simp
next
  case (Suc n)
  obtain s' stop ev where fn: "fn s = ((s', stop), ev)"
    by (metis surj_pair)
  have s': "P s'" using assms(2) Suc.prems fn by blast
  show ?case
  proof (cases stop)
    case True
    with fn s' show ?thesis by (simp add: scan_until_Suc_stop)
  next
    case False
    with fn s' Suc.IH [OF s'] show ?thesis by (simp add: scan_until_Suc_go)
  qed
qed

text \<open>Each output is the body applied to the output before it.\<close>

lemma scan_until_chain:
  "i < length (fst (scan_until fn s n)) \<Longrightarrow>
   fst (fst (fn ((s # fst (scan_until fn s n)) ! i))) = fst (scan_until fn s n) ! i"
proof (induction n arbitrary: s i)
  case 0
  then show ?case by simp
next
  case (Suc n)
  obtain s' stop ev where fn: "fn s = ((s', stop), ev)"
    by (metis surj_pair)
  show ?case
  proof (cases stop)
    case True
    with fn Suc.prems show ?thesis by (simp add: scan_until_Suc_stop)
  next
    case False
    show ?thesis
    proof (cases i)
      case 0
      with fn False show ?thesis by (simp add: scan_until_Suc_go)
    next
      case (Suc j)
      with fn False Suc.prems have "j < length (fst (scan_until fn s' n))"
        by (simp add: scan_until_Suc_go)
      from Suc.IH [OF this] fn False Suc show ?thesis
        by (simp add: scan_until_Suc_go)
    qed
  qed
qed

lemma scan_ok:
  "1 \<le> n_steps \<Longrightarrow>
   scan fn s n_steps = (Inr (fst (scan_until fn s (nat n_steps))), snd (scan_until fn s (nat n_steps)))"
  by (simp add: scan_def split: prod.splits)

lemma last_entry_nonempty: "xs \<noteq> [] \<Longrightarrow> last_entry xs = Inr (last xs)"
  by (cases xs) (simp_all add: last_entry_def)

section \<open>Properties of interval_location\<close>

lemma interval_location_ok:
  assumes "1 \<le> maxiter"
  shows "interval_location f minstep maxstep maxiter =
     (Inr (snd (last (fst (scan_until (\<lambda>s. find_right_bound f s maxstep) (PInf, minstep) (nat maxiter))))),
      snd (scan_until (\<lambda>s. find_right_bound f s maxstep) (PInf, minstep) (nat maxiter)))"
proof -
  have "fst (scan_until (\<lambda>s. find_right_bound f s maxstep) (PInf, minstep) (nat maxiter)) \<noteq> []"
    using assms by (intro scan_until_nonempty) simp
  then show ?thesis using assms
    by (simp add: interval_location_def scan_ok last_entry_nonempty last_map)
qed

lemma find_right_bound_range:
  assumes "0 < minstep" "minstep \<le> snd s" "snd s \<le> maxstep"
    and "find_right_bound f s maxstep = ((s', stop), ev)"
  shows "minstep \<le> snd s' \<and> snd s' \<le> maxstep"
  using assms by (cases s) (auto simp: Let_def min_def split: if_splits)

lemma interval_location_range:
  assumes "0 < minstep" "minstep < maxstep" "1 \<le> maxiter"
  shows "\<exists>r. fst (interval_location f minstep maxstep maxiter) = Inr r \<and> minstep \<le> r \<and> r \<le> maxstep"
proof -
  let ?P = "\<lambda>s::fval \<times> real. minstep \<le> snd s \<and> snd s \<le> maxstep"
  let ?outs = "fst (scan_until (\<lambda>s. find_right_bound f s maxstep) (PInf, minstep) (nat maxiter))"
  have inv: "\<forall>x \<in> set ?outs. ?P x"
  proof (rule scan_until_invariant [where P = ?P])
    show "?P (PInf, minstep)" using assms by simp
  next
    fix s s' :: "fval \<times> real" and stop ev
    assume "?P s" and "find_right_bound f s maxstep = ((s', stop), ev)"
    then show "?P s'" using find_right_bound_range [of minstep s maxstep f s' stop ev] assms(1) by blast
  qed
  have "?outs \<noteq> []" using assms(3) by (intro scan_until_nonempty) simp
  then have "last ?outs \<in> set ?outs" by simp
  with inv have "?P (last ?outs)" by blast
  then show ?thesis using assms(3) by (simp add: interval_location_ok)
qed

text \<open>
  C5: for every objective, every \<open>0 < minstep < maxstep\<close> and every \<open>maxiter \<ge> 1\<close>,
  \<open>interval_location\<close> returns a value, and the value lies in the closed interval from
  \<open>minstep\<close> to \<open>maxstep\<close>.
\<close>

theorem interval_location_in_range:
  assumes "0 < minstep" "minstep < maxstep" "1 \<le> maxiter"
  shows "\<exists>r. fst (interval_location f minstep maxstep maxiter) = Inr r \<and> minstep \<le> r \<and> r \<le> maxstep"
  using assms by (rule interval_location_range)

theorem interval_location_in_range_witness:
  "(0::real) < 1 \<and> (1::real) < 50 \<and> (1::int) \<le> 3 \<and>
   (\<exists>r. fst (interval_location rising_objective 1 50 3) = Inr r \<and> 1 \<le> r \<and> r \<le> 50)"
  using interval_location_in_range [of 1 50 3 rising_objective] by simp

section \<open>Comparisons\<close>

lemma T_lt_irrefl: "\<not> T_lt x x"
  by (cases x) simp_all

lemma T_lt_asym: "T_lt x y \<Longrightarrow> \<not> T_lt y x"
  by (cases x; cases y) simp_all

section \<open>Decreasing and flat objectives\<close>

text \<open>The last state of a scan, the start state included.\<close>

lemma scan_until_last_Suc:
  "fn s = ((s', stop), ev) \<Longrightarrow>
   last (s # fst (scan_until fn s (Suc n))) =
     (if stop then s' else last (s' # fst (scan_until fn s' n)))"
  by (cases stop) (simp_all add: scan_until_Suc_stop scan_until_Suc_go)

lemma min_capped:
  fixes m :: real
  assumes "0 < m"
  shows "min (2 ^ n * m) m = m"
proof -
  have "1 * m \<le> 2 ^ n * m"
    using assms by (intro mult_right_mono) simp_all
  then show ?thesis by simp
qed

lemma min_doubling:
  fixes s m :: real
  assumes "0 < s" "0 < m"
  shows "min (2 ^ n * min (2 * s) m) m = min (2 ^ Suc n * s) m"
proof (cases "2 * s \<le> m")
  case True
  then show ?thesis by (simp add: mult.assoc mult.left_commute)
next
  case False
  then have "m < 2 * s" by simp
  moreover have "1 * (2 * s) \<le> 2 ^ n * (2 * s)"
    using assms by (intro mult_right_mono) simp_all
  ultimately have "m \<le> 2 ^ Suc n * s" by (simp add: mult.assoc mult.left_commute)
  with False show ?thesis using min_capped [OF assms(2), of n] by (simp del: power_Suc)
qed

lemma find_right_bound_falling:
  assumes dec: "\<And>x y. minstep \<le> x \<Longrightarrow> x < y \<Longrightarrow> y \<le> maxstep \<Longrightarrow> T_lt (f y) (f x)"
    and "0 < minstep" "minstep \<le> step" "step \<le> maxstep"
    and "T_lt (f step) prev \<or> (step = maxstep \<and> prev = f maxstep)"
  shows "snd (last ((prev, step) # fst (scan_until (\<lambda>s. find_right_bound f s maxstep) (prev, step) n)))
           = min (2 ^ n * step) maxstep"
  using assms(3-)
proof (induction n arbitrary: prev step)
  case 0
  then show ?case by simp
next
  case (Suc n)
  let ?fn = "\<lambda>s. find_right_bound f s maxstep"
  from Suc.prems(3) show ?case
  proof
    assume lt: "T_lt (f step) prev"
    let ?step' = "min (2 * step) maxstep"
    have fn: "?fn (prev, step) = (((f step, ?step'), False), [step])"
      using lt T_lt_asym [OF lt] by (simp add: T_gt_def Let_def)
    have r1: "minstep \<le> ?step'" "?step' \<le> maxstep"
      using Suc.prems assms(2) by (simp_all add: min_def)
    have r2: "T_lt (f ?step') (f step) \<or> (?step' = maxstep \<and> f step = f maxstep)"
    proof (cases "step = maxstep")
      case True
      then show ?thesis using assms(2) Suc.prems by (simp add: min_def)
    next
      case False
      then have "step < ?step'" using Suc.prems assms(2) by (simp add: min_def)
      then show ?thesis using dec [of step ?step'] Suc.prems r1 by blast
    qed
    have "snd (last ((f step, ?step') # fst (scan_until ?fn (f step, ?step') n)))
           = min (2 ^ n * ?step') maxstep"
      using Suc.IH [OF r1 r2] .
    moreover have "min (2 ^ n * ?step') maxstep = min (2 ^ Suc n * step) maxstep"
      using Suc.prems assms(2) by (intro min_doubling) auto
    ultimately show ?thesis
      using scan_until_last_Suc [of ?fn, OF fn, of n] by simp
  next
    assume eq: "step = maxstep \<and> prev = f maxstep"
    have fn: "?fn (prev, step) = (((f maxstep, maxstep), False), [step])"
      using eq by (simp add: T_gt_def Let_def T_lt_irrefl)
    have "snd (last ((f maxstep, maxstep) # fst (scan_until ?fn (f maxstep, maxstep) n)))
           = min (2 ^ n * maxstep) maxstep"
      using Suc.IH [of maxstep "f maxstep"] Suc.prems eq by simp
    moreover have "min (2 ^ n * maxstep) maxstep = min (2 ^ Suc n * step) maxstep"
      using Suc.prems assms(2) eq min_capped [of maxstep n] min_capped [of maxstep "Suc n"] by simp
    ultimately show ?thesis
      using scan_until_last_Suc [of ?fn, OF fn, of n] eq by simp
  qed
qed

text \<open>
  C3, as amended: for every objective that is strictly decreasing on the interval from
  \<open>minstep\<close> to \<open>maxstep\<close> and below positive infinity at \<open>minstep\<close>, for all
  \<open>0 < minstep < maxstep\<close> and every \<open>maxiter \<ge> 1\<close> with
  \<open>maxstep \<le> 2 ^ maxiter * minstep\<close> (enough iterations for the doubling to reach
  \<open>maxstep\<close>), \<open>interval_location\<close> returns exactly \<open>maxstep\<close>.
\<close>

theorem interval_location_falling:
  assumes "0 < minstep" "minstep < maxstep" "1 \<le> maxiter"
    and "\<forall>x y. minstep \<le> x \<and> x < y \<and> y \<le> maxstep \<longrightarrow> T_lt (f y) (f x)"
    and "T_lt (f minstep) PInf"
    and "maxstep \<le> 2 ^ nat maxiter * minstep"
  shows "fst (interval_location f minstep maxstep maxiter) = Inr maxstep"
proof -
  let ?outs = "fst (scan_until (\<lambda>s. find_right_bound f s maxstep) (PInf, minstep) (nat maxiter))"
  have ne: "?outs \<noteq> []" using assms(3) by (intro scan_until_nonempty) simp
  have "snd (last ((PInf, minstep) # ?outs)) = min (2 ^ nat maxiter * minstep) maxstep"
    using assms by (intro find_right_bound_falling) auto
  with ne assms(6) have "snd (last ?outs) = maxstep" by (simp add: min_def)
  then show ?thesis using assms(3) by (simp add: interval_location_ok)
qed

theorem interval_location_falling_witness:
  "(0::real) < 1 \<and> (1::real) < 50 \<and> (1::int) \<le> 6 \<and>
   T_lt (falling_objective 1) PInf \<and> (50::real) \<le> 2 ^ nat 6 * 1 \<and>
   fst (interval_location falling_objective 1 50 6) = Inr 50"
  using interval_location_falling [of 1 50 6 falling_objective]
  by (simp add: falling_objective_def)

text \<open>
  C3 as stated fails twice. On a flat objective the first comparison (against positive
  infinity) doubles the step once, and every later comparison is between equal values,
  which neither doubles the step nor stops the loop: the result is \<open>2 * minstep\<close>. On a
  decreasing objective with too few iterations the doubling stops short of \<open>maxstep\<close>.
\<close>

theorem interval_location_flat_counterexample:
  "fst (interval_location flat_objective 1 50 10) = Inr 2 \<and>
   fst (interval_location falling_objective 1 50 1) = Inr 2"
  by (simp add: interval_location_ok eval_nat_numeral scan_until_Suc_go scan_until_Suc_stop
      flat_objective_def falling_objective_def T_gt_def)

lemma last_entry_scan:
  "0 < n \<Longrightarrow> last_entry (fst (scan_until fn s n)) = Inr (last (fst (scan_until fn s n)))"
  by (simp add: last_entry_nonempty scan_until_nonempty)

lemma golden_search_ok:
  assumes "1 \<le> maxiter"
  shows "golden_search f maxstep maxiter tol =
     (let br = last (fst (scan_until (\<lambda>s. interval_reduction f s tol) (initial_bracket maxstep) (nat maxiter)))
      in Inr ((fst br + fst (snd br)) / 2),
      snd (scan_until (\<lambda>s. interval_reduction f s tol) (initial_bracket maxstep) (nat maxiter)))"
  using assms
  by (simp add: golden_search_def scan_ok last_entry_scan Let_def split: prod.splits)

lemma interval_location_returns:
  "1 \<le> maxiter \<Longrightarrow> \<exists>r. fst (interval_location f minstep maxstep maxiter) = Inr r"
  by (simp only: interval_location_ok fst_conv) blast

lemma golden_search_returns:
  "1 \<le> maxiter \<Longrightarrow> \<exists>r. fst (golden_search f maxstep maxiter tol) = Inr r"
  by (simp only: golden_search_ok fst_conv Let_def) blast

lemma find_right_bound_log: "length (snd (find_right_bound f s maxstep)) \<le> 1"
  by (cases s) (simp add: Let_def)

lemma interval_reduction_log: "length (snd (interval_reduction f s tol)) \<le> 2"
  by (cases s) (simp add: Let_def)

text \<open>
  C9: both searches are total functions, and for every objective and every
  \<open>maxiter \<ge> 1\<close> each returns a value and no error, whether or not its stopping
  rule ever holds: its scan runs at least one and at most \<open>maxiter\<close> iterations, and
  the value is the step of the last iteration, respectively the midpoint of the last
  bracket. \<open>interval_location\<close> evaluates the objective once in an iteration and
  \<open>golden_search\<close> twice, which bounds the logs.
\<close>

theorem searches_terminate:
  assumes "1 \<le> maxiter"
  shows "(\<exists>outputs.
            fst (scan (\<lambda>s. find_right_bound f s maxstep) (PInf, minstep) maxiter) = Inr outputs \<and>
            outputs \<noteq> [] \<and> length outputs \<le> nat maxiter \<and>
            fst (interval_location f minstep maxstep maxiter) = Inr (snd (last outputs))) \<and>
         length (snd (interval_location f minstep maxstep maxiter)) \<le> nat maxiter \<and>
         (\<exists>outputs.
            fst (scan (\<lambda>s. interval_reduction f s tol) (initial_bracket maxstep) maxiter) = Inr outputs \<and>
            outputs \<noteq> [] \<and> length outputs \<le> nat maxiter \<and>
            fst (golden_search f maxstep maxiter tol) =
              Inr ((fst (last outputs) + fst (snd (last outputs))) / 2)) \<and>
         length (snd (golden_search f maxstep maxiter tol)) \<le> 2 * nat maxiter"
proof (intro conjI)
  let ?loc = "scan_until (\<lambda>s. find_right_bound f s maxstep) (PInf, minstep) (nat maxiter)"
  let ?gold = "scan_until (\<lambda>s. interval_reduction f s tol) (initial_bracket maxstep) (nat maxiter)"
  have n: "0 < nat maxiter" using assms by simp
  have "fst (scan (\<lambda>s. find_right_bound f s maxstep) (PInf, minstep) maxiter) = Inr (fst ?loc) \<and>
        fst ?loc \<noteq> [] \<and> length (fst ?loc) \<le> nat maxiter \<and>
        fst (interval_location f minstep maxstep maxiter) = Inr (snd (last (fst ?loc)))"
    using assms
      scan_until_nonempty [OF n, of "\<lambda>s. find_right_bound f s maxstep" "(PInf, minstep)"]
      scan_until_length [of "\<lambda>s. find_right_bound f s maxstep" "(PInf, minstep)" "nat maxiter"]
    by (simp add: scan_ok interval_location_ok)
  then show "\<exists>outputs.
            fst (scan (\<lambda>s. find_right_bound f s maxstep) (PInf, minstep) maxiter) = Inr outputs \<and>
            outputs \<noteq> [] \<and> length outputs \<le> nat maxiter \<and>
            fst (interval_location f minstep maxstep maxiter) = Inr (snd (last outputs))"
    by blast
  have "length (snd ?loc) \<le> 1 * nat maxiter"
    by (rule scan_until_log_length) (rule find_right_bound_log)
  then show "length (snd (interval_location f minstep maxstep maxiter)) \<le> nat maxiter"
    using assms by (simp add: interval_location_ok)
  have "fst (scan (\<lambda>s. interval_reduction f s tol) (initial_bracket maxstep) maxiter) = Inr (fst ?gold) \<and>
        fst ?gold \<noteq> [] \<and> length (fst ?gold) \<le> nat maxiter \<and>
        fst (golden_search f maxstep maxiter tol) =
          Inr ((fst (last (fst ?gold)) + fst (snd (last (fst ?gold)))) / 2)"
    using assms
      scan_until_nonempty [OF n, of "\<lambda>s. interval_reduction f s tol" "initial_bracket maxstep"]
      scan_until_length [of "\<lambda>s. interval_reduction f s tol" "initial_bracket maxstep" "nat maxiter"]
    by (simp add: scan_ok golden_search_ok Let_def)
  then show "\<exists>outputs.
            fst (scan (\<lambda>s. interval_reduction f s tol) (initial_bracket maxstep) maxiter) = Inr outputs \<and>
            outputs \<noteq> [] \<and> length outputs \<le> nat maxiter \<and>
            fst (golden_search f maxstep maxiter tol) =
              Inr ((fst (last outputs) + fst (snd (last outputs))) / 2)"
    by blast
  have "length (snd ?gold) \<le> 2 * nat maxiter"
    by (rule scan_until_log_length) (rule interval_reduction_log)
  then show "length (snd (golden_search f maxstep maxiter tol)) \<le> 2 * nat maxiter"
    using assms by (simp add: golden_search_ok)
qed

theorem searches_terminate_witness:
  "(1::int) \<le> 3 \<and>
   (\<exists>outputs.
      fst (scan (\<lambda>s. find_right_bound flat_objective s 50) (PInf, 1) 3) = Inr outputs \<and>
      outputs \<noteq> [] \<and> length outputs \<le> nat 3 \<and>
      fst (interval_location flat_objective 1 50 3) = Inr (snd (last outputs))) \<and>
   length (snd (interval_location flat_objective 1 50 3)) \<le> nat 3 \<and>
   (\<exists>outputs.
      fst (scan (\<lambda>s. interval_reduction flat_objective s 0) (initial_bracket 50) 3) = Inr outputs \<and>
      outputs \<noteq> [] \<and> length outputs \<le> nat 3 \<and>
      fst (golden_search flat_objective 50 3 0) =
        Inr ((fst (last outputs) + fst (snd (last outputs))) / 2)) \<and>
   length (snd (golden_search flat_objective 50 3 0)) \<le> 2 * nat 3"
proof -
  have h: "(1::int) \<le> 3" by simp
  from h searches_terminate [OF h, of flat_objective 50 1 0] show ?thesis by (rule conjI)
qed

section \<open>Properties of fmin_golden_search\<close>

lemma check_params_Some:
  "\<exists>n v. (n, v) \<in> set ps \<and> v \<le> 0 \<Longrightarrow>
   \<exists>n v. (n, v) \<in> set ps \<and> v \<le> 0 \<and>
      check_params ps = Some (ValueError (''Parameter `'' @ n @ ''` should be greater than zero.''))"
proof (induction ps)
  case Nil
  then show ?case by simp
next
  case (Cons p ps)
  obtain n v where p: "p = (n, v)" by (cases p)
  show ?case
  proof (cases "v \<le> 0")
    case True
    with p show ?thesis by (intro exI [of _ n] exI [of _ v]) simp
  next
    case False
    with p Cons.prems have "\<exists>n v. (n, v) \<in> set ps \<and> v \<le> 0" by auto
    from Cons.IH [OF this] obtain n' v' where
      "(n', v') \<in> set ps" "v' \<le> 0"
      "check_params ps = Some (ValueError (''Parameter `'' @ n' @ ''` should be greater than zero.''))"
      by blast
    with p False show ?thesis by (intro exI [of _ n'] exI [of _ v']) simp
  qed
qed

lemma check_params_None: "\<forall>p \<in> set ps. 0 < snd p \<Longrightarrow> check_params ps = None"
  by (induction ps) auto

lemma fmin_golden_search_valid:
  assumes "1 \<le> maxiter" "0 < minstep" "0 < maxstep" "0 < tol" "minstep < maxstep"
  shows "\<exists>bound best_step.
           fst (interval_location f minstep maxstep maxiter) = Inr bound \<and>
           fst (golden_search f bound maxiter tol) = Inr best_step \<and>
           fmin_golden_search f minstep maxstep maxiter tol =
             (Inr best_step, snd (interval_location f minstep maxstep maxiter) @
                             snd (golden_search f bound maxiter tol))"
proof -
  have cp: "check_params [(''maxiter'', of_int maxiter), (''minstep'', minstep),
                      (''maxstep'', maxstep), (''tol'', tol)] = None"
    using assms by (intro check_params_None) simp
  obtain bound where b: "fst (interval_location f minstep maxstep maxiter) = Inr bound"
    using interval_location_returns [OF assms(1)] by blast
  obtain best_step where g: "fst (golden_search f bound maxiter tol) = Inr best_step"
    using golden_search_returns [OF assms(1)] by blast
  have "fmin_golden_search f minstep maxstep maxiter tol =
             (Inr best_step, snd (interval_location f minstep maxstep maxiter) @
                             snd (golden_search f bound maxiter tol))"
    using cp b g assms(5)
    by (cases "interval_location f minstep maxstep maxiter"; cases "golden_search f bound maxiter tol")
       (simp add: fmin_golden_search_def)
  with b g show ?thesis by blast
qed

lemma fmin_golden_search_invalid:
  assumes "check_params [(''maxiter'', of_int maxiter), (''minstep'', minstep),
                         (''maxstep'', maxstep), (''tol'', tol)] = Some e"
  shows "fmin_golden_search f minstep maxstep maxiter tol = (Inl e, [])"
  by (simp only: fmin_golden_search_def assms option.case)

lemma fmin_golden_search_order:
  assumes "check_params [(''maxiter'', of_int maxiter), (''minstep'', minstep),
                         (''maxstep'', maxstep), (''tol'', tol)] = None"
    and "maxstep \<le> minstep"
  shows "fmin_golden_search f minstep maxstep maxiter tol =
           (Inl (ValueError ''`minstep` should be smaller than `maxstep`''), [])"
  by (simp only: fmin_golden_search_def assms option.case if_True)

lemma offending_param:
  fixes minstep maxstep tol :: real and maxiter :: int
  assumes "maxiter \<le> 0 \<or> minstep \<le> 0 \<or> maxstep \<le> 0 \<or> tol \<le> 0"
  shows "\<exists>n v. (n, v) \<in> set [(''maxiter'', of_int maxiter), (''minstep'', minstep),
                                 (''maxstep'', maxstep), (''tol'', tol)] \<and> v \<le> 0"
proof -
  consider "maxiter \<le> 0" | "minstep \<le> 0" | "maxstep \<le> 0" | "tol \<le> 0"
    using assms by blast
  then show ?thesis
  proof cases
    case 1
    then have "(''maxiter'', real_of_int maxiter) \<in> set [(''maxiter'', of_int maxiter), (''minstep'', minstep),
                                 (''maxstep'', maxstep), (''tol'', tol)] \<and> real_of_int maxiter \<le> 0"
      by (simp only: list.set insert_iff simp_thms of_int_le_0_iff)
    then show ?thesis by blast
  next
    case 2
    then have "(''minstep'', minstep) \<in> set [(''maxiter'', of_int maxiter), (''minstep'', minstep),
                                 (''maxstep'', maxstep), (''tol'', tol)] \<and> minstep \<le> 0"
      by (simp only: list.set insert_iff simp_thms)
    then show ?thesis by blast
  next
    case 3
    then have "(''maxstep'', maxstep) \<in> set [(''maxiter'', of_int maxiter), (''minstep'', minstep),
                                 (''maxstep'', maxstep), (''tol'', tol)] \<and> maxstep \<le> 0"
      by (simp only: list.set insert_iff simp_thms)
    then show ?thesis by blast
  next
    case 4
    then have "(''tol'', tol) \<in> set [(''maxiter'', of_int maxiter), (''minstep'', minstep),
                                 (''maxstep'', maxstep), (''tol'', tol)] \<and> tol \<le> 0"
      by (simp only: list.set insert_iff simp_thms)
    then show ?thesis by blast
  qed
qed

text \<open>
  C4: when one of \<open>maxiter\<close>, \<open>minstep\<close>, \<open>maxstep\<close>, \<open>tol\<close> is not positive,
  \<open>fmin_golden_search\<close> raises a \<open>ValueError\<close> whose message names a parameter that
  is not positive; when all are positive and \<open>minstep \<ge> maxstep\<close> it raises the
  \<open>ValueError\<close> about their order; in both cases the log of evaluations is empty, so
  the objective has not been called. When the parameters are valid it raises nothing:
  it runs \<open>interval_location\<close>, then \<open>golden_search\<close> on the bound that was located,
  and returns the latter's result.
\<close>

theorem fmin_golden_search_validation:
  "(maxiter \<le> 0 \<or> minstep \<le> 0 \<or> maxstep \<le> 0 \<or> tol \<le> 0 \<longrightarrow>
      (\<exists>name v. (name, v) \<in> set [(''maxiter'', of_int maxiter), (''minstep'', minstep),
                                  (''maxstep'', maxstep), (''tol'', tol)] \<and>
         v \<le> 0 \<and>
         fmin_golden_search f minstep maxstep maxiter tol =
           (Inl (ValueError (''Parameter `'' @ name @ ''` should be greater than zero.'')), []))) \<and>
   (0 < maxiter \<and> 0 < minstep \<and> 0 < maxstep \<and> 0 < tol \<and> maxstep \<le> minstep \<longrightarrow>
      fmin_golden_search f minstep maxstep maxiter tol =
        (Inl (ValueError ''`minstep` should be smaller than `maxstep`''), [])) \<and>
   (0 < maxiter \<and> 0 < minstep \<and> 0 < maxstep \<and> 0 < tol \<and> minstep < maxstep \<longrightarrow>
      (\<exists>bound best_step.
           fst (interval_location f minstep maxstep maxiter) = Inr bound \<and>
           fst (golden_search f bound maxiter tol) = Inr best_step \<and>
           fmin_golden_search f minstep maxstep maxiter tol =
             (Inr best_step, snd (interval_location f minstep maxstep maxiter) @
                             snd (golden_search f bound maxiter tol))))"
proof (intro conjI impI)
  let ?ps = "[(''maxiter'', of_int maxiter), (''minstep'', minstep),
              (''maxstep'', maxstep), (''tol'', tol)]"
  assume "maxiter \<le> 0 \<or> minstep \<le> 0 \<or> maxstep \<le> 0 \<or> tol \<le> 0"
  from check_params_Some [OF offending_param [OF this]]
  obtain n v where nv: "(n, v) \<in> set ?ps" "v \<le> 0"
    and cp: "check_params ?ps = Some (ValueError (''Parameter `'' @ n @ ''` should be greater than zero.''))"
    by blast
  from nv fmin_golden_search_invalid [OF cp, of f]
  show "\<exists>name v. (name, v) \<in> set ?ps \<and> v \<le> 0 \<and>
         fmin_golden_search f minstep maxstep maxiter tol =
           (Inl (ValueError (''Parameter `'' @ name @ ''` should be greater than zero.'')), [])"
    by blast
next
  assume a: "0 < maxiter \<and> 0 < minstep \<and> 0 < maxstep \<and> 0 < tol \<and> maxstep \<le> minstep"
  have "check_params [(''maxiter'', of_int maxiter), (''minstep'', minstep),
                      (''maxstep'', maxstep), (''tol'', tol)] = None"
    using a by (intro check_params_None) simp
  then show "fmin_golden_search f minstep maxstep maxiter tol =
        (Inl (ValueError ''`minstep` should be smaller than `maxstep`''), [])"
    using a by (intro fmin_golden_search_order) blast+
next
  assume "0 < maxiter \<and> 0 < minstep \<and> 0 < maxstep \<and> 0 < tol \<and> minstep < maxstep"
  then show "\<exists>bound best_step.
           fst (interval_location f minstep maxstep maxiter) = Inr bound \<and>
           fst (golden_search f bound maxiter tol) = Inr best_step \<and>
           fmin_golden_search f minstep maxstep maxiter tol =
             (Inr best_step, snd (interval_location f minstep maxstep maxiter) @
                             snd (golden_search f bound maxiter tol))"
    by (intro fmin_golden_search_valid) simp_all
qed

theorem fmin_golden_search_validation_witness:
  "((0::int) \<le> 0 \<or> (1::real) \<le> 0 \<or> (50::real) \<le> 0 \<or> (1::real) \<le> 0) \<and>
   (\<exists>name v. (name, v) \<in> set [(''maxiter'', real_of_int 0), (''minstep'', 1),
                               (''maxstep'', 50), (''tol'', 1)] \<and>
      v \<le> 0 \<and>
      fmin_golden_search rising_objective 1 50 0 1 =
        (Inl (ValueError (''Parameter `'' @ name @ ''` should be greater than zero.'')), [])) \<and>
   ((0::int) < 1 \<and> (0::real) < 50 \<and> (0::real) < 1 \<and> (0::real) < 1 \<and> (1::real) \<le> 50) \<and>
   fmin_golden_search rising_objective 50 1 1 1 =
     (Inl (ValueError ''`minstep` should be smaller than `maxstep`''), []) \<and>
   ((0::int) < 1 \<and> (0::real) < 1 \<and> (0::real) < 50 \<and> (0::real) < 1 \<and> (1::real) < 50) \<and>
   (\<exists>bound best_step.
      fst (interval_location rising_objective 1 50 1) = Inr bound \<and>
      fst (golden_search rising_objective bound 1 1) = Inr best_step \<and>
      fmin_golden_search rising_objective 1 50 1 1 =
        (Inr best_step, snd (interval_location rising_objective 1 50 1) @
                        snd (golden_search rising_objective bound 1 1)))"
proof -
  have h1: "(0::int) \<le> 0 \<or> (1::real) \<le> 0 \<or> (50::real) \<le> 0 \<or> (1::real) \<le> 0"
    by simp
  have h2: "(0::int) < 1 \<and> (0::real) < 50 \<and> (0::real) < 1 \<and> (0::real) < 1 \<and> (1::real) \<le> 50"
    by simp
  have h3: "(0::int) < 1 \<and> (0::real) < 1 \<and> (0::real) < 50 \<and> (0::real) < 1 \<and> (1::real) < 50"
    by simp
  note t1 = fmin_golden_search_validation [of 0 1 50 1 rising_objective, THEN conjunct1, rule_format, OF h1]
  note t2 = fmin_golden_search_validation [of 1 50 1 1 rising_objective, THEN conjunct2, THEN conjunct1, rule_format, OF h2]
  note t3 = fmin_golden_search_validation [of 1 1 50 1 rising_objective, THEN conjunct2, THEN conjunct2, rule_format, OF h3]
  show ?thesis
    by (rule conjI [OF h1 conjI [OF t1 conjI [OF h2 conjI [OF t2 conjI [OF h3 t3]]]]])
qed

section \<open>Properties of golden_search\<close>

lemma sqrt5_bounds: "11 / 5 < sqrt 5" "sqrt 5 < 9 / 4"
proof -
  have "(11 / 5 :: real)\<^sup>2 < 5" by (simp add: power2_eq_square)
  then show "11 / 5 < sqrt 5" by (rule real_less_rsqrt)
  have "(5::real) < (9 / 4)\<^sup>2" by (simp add: power2_eq_square)
  then show "sqrt 5 < 9 / 4" by (intro real_less_lsqrt) simp_all
qed

lemma golden_ratio_bounds: "3 / 5 < golden_ratio" "golden_ratio < 5 / 8"
  using sqrt5_bounds by (simp_all add: golden_ratio_def)

lemma golden_ratio_square: "golden_ratio * golden_ratio = 1 - golden_ratio"
proof -
  have "sqrt 5 * sqrt 5 = 5" by simp
  then show ?thesis by (simp add: golden_ratio_def field_simps)
qed

lemma golden_bracket_initial: "golden_bracket (initial_bracket maxstep)"
  by (simp add: golden_bracket_def initial_bracket_def)

lemma interval_reduction_golden:
  assumes "golden_bracket br" and "interval_reduction f br tol = ((br', stop), ev)"
  shows "golden_bracket br'"
proof -
  obtain a b c d where br: "br = (a, b, c, d)" by (cases br)
  have sq: "golden_ratio * (golden_ratio * (b - a)) = (1 - golden_ratio) * (b - a)"
    by (simp only: mult.assoc [symmetric] golden_ratio_square)
  have 1: "b - golden_ratio * (b - a) = a + golden_ratio * (golden_ratio * (b - a))"
    unfolding sq by (simp add: algebra_simps)
  have 2: "a + golden_ratio * (b - a) = b - golden_ratio * (golden_ratio * (b - a))"
    unfolding sq by (simp add: algebra_simps)
  show ?thesis
    using assms 1 2 unfolding br golden_bracket_def
    by (auto simp: Let_def split: if_splits)
qed

lemma interval_reduction_width:
  assumes "golden_bracket br" and "interval_reduction f br tol = ((br', stop), ev)"
  shows "width br' = golden_ratio * width br"
proof -
  obtain a b c d where br: "br = (a, b, c, d)" by (cases br)
  show ?thesis
    using assms unfolding br golden_bracket_def width_def
    by (auto simp: Let_def algebra_simps split: if_splits)
qed

lemma scan_outputs:
  assumes "fst (scan fn s n_steps) = Inr outputs"
  shows "outputs = fst (scan_until fn s (nat \<bar>n_steps\<bar>))"
  using assms by (auto simp: scan_def split: if_splits prod.splits)

lemma interval_reduction_step:
  assumes "golden_bracket (a, b, c, d)"
    and "fst (fst (interval_reduction f (a, b, c, d) tol)) = (a', b', c', d')"
  shows "b' - a' = golden_ratio * (b - a) \<and>
         (T_lt (f c) (f d) \<longrightarrow> a' = a \<and> b' = d \<and> d - a = golden_ratio * (b - a)) \<and>
         (\<not> T_lt (f c) (f d) \<longrightarrow> a' = c \<and> b' = b \<and> b - c = golden_ratio * (b - a))"
  using assms unfolding golden_bracket_def
  by (auto simp: Let_def algebra_simps split: if_splits)

text \<open>
  C7, as amended: in exact real arithmetic and with the ratio the exact number
  \<open>(sqrt 5 - 1) / 2\<close>, every iteration of \<open>interval_reduction\<close> that the scan of
  \<open>golden_search\<close> runs multiplies the width \<open>b - a\<close> of the bracket by exactly
  \<open>golden_ratio\<close>, whichever branch is taken: the new bracket is \<open>(a, d)\<close> with
  \<open>d - a = golden_ratio * (b - a)\<close> when \<open>f c < f d\<close>, and \<open>(c, b)\<close> with
  \<open>b - c = golden_ratio * (b - a)\<close> otherwise. Here \<open>(a, b, c, d)\<close> is the bracket
  before iteration \<open>i\<close> and \<open>(a', b', c', d')\<close> the one after it.
\<close>

theorem golden_search_width:
  assumes "fst (scan (\<lambda>s. interval_reduction f s tol) (initial_bracket maxstep) maxiter) = Inr outputs"
    and "i < length outputs"
    and "(initial_bracket maxstep # outputs) ! i = (a, b, c, d)"
    and "outputs ! i = (a', b', c', d')"
  shows "b' - a' = golden_ratio * (b - a) \<and>
         (T_lt (f c) (f d) \<longrightarrow> a' = a \<and> b' = d \<and> d - a = golden_ratio * (b - a)) \<and>
         (\<not> T_lt (f c) (f d) \<longrightarrow> a' = c \<and> b' = b \<and> b - c = golden_ratio * (b - a))"
proof -
  let ?fn = "\<lambda>s. interval_reduction f s tol"
  let ?s = "initial_bracket maxstep"
  have outs: "outputs = fst (scan_until ?fn ?s (nat \<bar>maxiter\<bar>))"
    using scan_outputs [OF assms(1)] by simp
  have "\<forall>x \<in> set outputs. golden_bracket x"
    unfolding outs
    by (rule scan_until_invariant [where P = golden_bracket])
       (auto intro: golden_bracket_initial interval_reduction_golden)
  then have all: "\<forall>x \<in> set (?s # outputs). golden_bracket x"
    by (simp add: golden_bracket_initial)
  have "(?s # outputs) ! i \<in> set (?s # outputs)"
    using assms(2) by (intro nth_mem) simp
  with all assms(3) have g: "golden_bracket (a, b, c, d)" by metis
  have "fst (fst (?fn ((?s # outputs) ! i))) = outputs ! i"
    using scan_until_chain [of i ?fn ?s "nat \<bar>maxiter\<bar>"] assms(2) unfolding outs by simp
  then have "fst (fst (interval_reduction f (a, b, c, d) tol)) = (a', b', c', d')"
    using assms(3,4) by simp
  from interval_reduction_step [OF g this] show ?thesis .
qed





lemma scan_until_pos_stop:
  "0 < n \<Longrightarrow> fn s = ((s', True), ev) \<Longrightarrow> scan_until fn s n = ([s'], ev)"
  by (cases n) (simp_all add: scan_until_Suc_stop)

lemma golden_ratio_mult_self: "golden_ratio * (golden_ratio * x) = (1 - golden_ratio) * x"
  by (simp only: mult.assoc [symmetric] golden_ratio_square)

subsection \<open>One iteration on the rising objective\<close>

lemma rising_step:
  "interval_reduction rising_objective (initial_bracket 2) 1 =
     (((0, 2 * golden_ratio, 4 * golden_ratio - 2, 2 - 2 * golden_ratio), True),
      [2 - 2 * golden_ratio, 2 * golden_ratio])"
proof -
  have 1: "2 - golden_ratio * 2 < golden_ratio * 2"
    using golden_ratio_bounds by simp
  have 2: "golden_ratio * 2 - golden_ratio * (golden_ratio * 2) = 4 * golden_ratio - 2"
    unfolding golden_ratio_mult_self by (simp add: algebra_simps)
  have 3: "\<bar>6 * golden_ratio - 4\<bar> < 1"
    using golden_ratio_bounds by simp
  show ?thesis
    using 1 2 3 by (simp add: initial_bracket_def rising_objective_def Let_def)
qed

lemma rising_scan:
  "scan (\<lambda>s. interval_reduction rising_objective s 1) (initial_bracket 2) 1 =
     (Inr [(0, 2 * golden_ratio, 4 * golden_ratio - 2, 2 - 2 * golden_ratio)],
      [2 - 2 * golden_ratio, 2 * golden_ratio])"
  using scan_until_pos_stop [of 1 "\<lambda>s. interval_reduction rising_objective s 1", OF _ rising_step]
  by (simp add: scan_def)

lemma rising_golden_search:
  "fst (golden_search rising_objective 2 1 1) = Inr golden_ratio"
  using rising_scan by (simp add: golden_search_def last_entry_def)

lemma rising_interval_location:
  "interval_location rising_objective 1 50 1 = (Inr 2, [1])"
  by (simp add: interval_location_ok scan_until_Suc_go scan_until_Suc_stop
      rising_objective_def T_gt_def)

lemma rising_fmin: "fst (fmin_golden_search rising_objective 1 50 1 1) = Inr golden_ratio"
  using rising_interval_location rising_golden_search
  by (cases "golden_search rising_objective 2 1 1") (simp add: fmin_golden_search_def)

theorem golden_search_width_witness:
  "fst (scan (\<lambda>s. interval_reduction rising_objective s 1) (initial_bracket 2) 1) =
     Inr [(0, 2 * golden_ratio, 4 * golden_ratio - 2, 2 - 2 * golden_ratio)] \<and>
   (0::nat) < length [(0::real, 2 * golden_ratio, 4 * golden_ratio - 2, 2 - 2 * golden_ratio)] \<and>
   initial_bracket 2 = (0, 2, 2 - 2 * golden_ratio, 2 * golden_ratio) \<and>
   T_lt (rising_objective (2 - 2 * golden_ratio)) (rising_objective (2 * golden_ratio)) \<and>
   2 * golden_ratio - 0 = golden_ratio * (2 - 0)"
proof -
  have s: "fst (scan (\<lambda>s. interval_reduction rising_objective s 1) (initial_bracket 2) 1) =
     Inr [(0, 2 * golden_ratio, 4 * golden_ratio - 2, 2 - 2 * golden_ratio)]"
    by (simp add: rising_scan)
  have i: "initial_bracket 2 = (0, 2, 2 - 2 * golden_ratio, 2 * golden_ratio)"
    by (simp add: initial_bracket_def)
  have t: "T_lt (rising_objective (2 - 2 * golden_ratio)) (rising_objective (2 * golden_ratio))"
    using golden_ratio_bounds by (simp add: rising_objective_def)
  have "2 * golden_ratio - 0 = golden_ratio * (2 - 0)"
    using golden_search_width [OF s, of 0 0 2 "2 - 2 * golden_ratio" "2 * golden_ratio"
        0 "2 * golden_ratio" "4 * golden_ratio - 2" "2 - 2 * golden_ratio"] i
    by simp
  with s i t show ?thesis by simp
qed

subsection \<open>Two iterations with the ratio in double precision\<close>

lemma interval_reduction_with_golden_ratio:
  "interval_reduction_with golden_ratio f br tol = interval_reduction f br tol"
  by (cases br) simp

lemma initial_bracket_with_golden_ratio:
  "initial_bracket_with golden_ratio maxstep = initial_bracket maxstep"
  by (simp add: initial_bracket_with_def initial_bracket_def)

lemma golden_scan_with_golden_ratio:
  "golden_scan_with golden_ratio f maxstep maxiter tol =
     scan (\<lambda>s. interval_reduction f s tol) (initial_bracket maxstep) maxiter"
  by (simp add: golden_scan_with_def interval_reduction_with_golden_ratio
      initial_bracket_with_golden_ratio)

lemma golden_ratio_double_bounds:
  "3 / 5 < golden_ratio_double" "golden_ratio_double < 5 / 8"
  by (simp_all add: golden_ratio_double_def)

lemma golden_ratio_double_square:
  "golden_ratio_double * golden_ratio_double \<noteq> 1 - golden_ratio_double"
  by (simp add: golden_ratio_double_def)

lemma double_first_iteration:
  "interval_reduction_with golden_ratio_double rising_objective
     (initial_bracket_with golden_ratio_double 2) (1 / 1000) =
     (((0, 2 * golden_ratio_double,
        2 * golden_ratio_double - golden_ratio_double * (2 * golden_ratio_double),
        2 - 2 * golden_ratio_double), False),
      [2 - 2 * golden_ratio_double, 2 * golden_ratio_double])"
  by (simp add: initial_bracket_with_def rising_objective_def Let_def golden_ratio_double_def)

lemma double_second_iteration:
  "interval_reduction_with golden_ratio_double rising_objective
     (0, 2 * golden_ratio_double,
      2 * golden_ratio_double - golden_ratio_double * (2 * golden_ratio_double),
      2 - 2 * golden_ratio_double) (1 / 1000) =
     (((0, 2 - 2 * golden_ratio_double,
        2 - 2 * golden_ratio_double - golden_ratio_double * (2 - 2 * golden_ratio_double),
        2 * golden_ratio_double - golden_ratio_double * (2 * golden_ratio_double)), False),
      [2 * golden_ratio_double - golden_ratio_double * (2 * golden_ratio_double),
       2 - 2 * golden_ratio_double])"
  by (simp add: rising_objective_def Let_def golden_ratio_double_def)

text \<open>
  C7 as stated fails on the ratio that the program holds. The interior point that an
  iteration keeps is the golden point of the new bracket only when \<open>q * q = 1 - q\<close>,
  which is false of the double. On \<open>f x = x\<close> with \<open>maxstep = 2\<close> the first iteration
  gives the width \<open>2 * q\<close>, and the second, taking the same branch, gives the width
  \<open>2 - 2 * q\<close>, which is not \<open>q\<close> times \<open>2 * q\<close>: the factor is about
  0.6180339887498947 where \<open>q\<close> is 0.6180339887498949. The bounds \<open>0\<close>, \<open>2 * q\<close> and
  \<open>2 - 2 * q\<close> are computed without rounding in double precision.
\<close>

theorem golden_search_width_counterexample:
  "fst (golden_scan_with golden_ratio_double rising_objective 2 2 (1 / 1000)) =
     Inr [(0, 2 * golden_ratio_double,
           2 * golden_ratio_double - golden_ratio_double * (2 * golden_ratio_double),
           2 - 2 * golden_ratio_double),
          (0, 2 - 2 * golden_ratio_double,
           2 - 2 * golden_ratio_double - golden_ratio_double * (2 - 2 * golden_ratio_double),
           2 * golden_ratio_double - golden_ratio_double * (2 * golden_ratio_double))] \<and>
   2 * golden_ratio_double - 0 = golden_ratio_double * (2 - 0) \<and>
   (2 - 2 * golden_ratio_double) - 0 \<noteq> golden_ratio_double * (2 * golden_ratio_double - 0)"
proof -
  have "scan_until (\<lambda>s. interval_reduction_with golden_ratio_double rising_objective s (1 / 1000))
          (initial_bracket_with golden_ratio_double 2) 2 =
        ([(0, 2 * golden_ratio_double,
           2 * golden_ratio_double - golden_ratio_double * (2 * golden_ratio_double),
           2 - 2 * golden_ratio_double),
          (0, 2 - 2 * golden_ratio_double,
           2 - 2 * golden_ratio_double - golden_ratio_double * (2 - 2 * golden_ratio_double),
           2 * golden_ratio_double - golden_ratio_double * (2 * golden_ratio_double))],
         [2 - 2 * golden_ratio_double, 2 * golden_ratio_double,
          2 * golden_ratio_double - golden_ratio_double * (2 * golden_ratio_double),
          2 - 2 * golden_ratio_double])"
    by (simp only: numeral_2_eq_2 scan_until.simps double_first_iteration
        double_second_iteration prod.case if_False append.simps)
  then have "fst (golden_scan_with golden_ratio_double rising_objective 2 2 (1 / 1000)) =
     Inr [(0, 2 * golden_ratio_double,
           2 * golden_ratio_double - golden_ratio_double * (2 * golden_ratio_double),
           2 - 2 * golden_ratio_double),
          (0, 2 - 2 * golden_ratio_double,
           2 - 2 * golden_ratio_double - golden_ratio_double * (2 - 2 * golden_ratio_double),
           2 * golden_ratio_double - golden_ratio_double * (2 * golden_ratio_double))]"
    by (simp add: golden_scan_with_def scan_def)
  moreover have "(2 - 2 * golden_ratio_double) - 0 \<noteq> golden_ratio_double * (2 * golden_ratio_double - 0)"
    using golden_ratio_double_square by simp
  ultimately show ?thesis by simp
qed

subsection \<open>One iteration on the parabola\<close>

lemma parabola_step:
  "interval_reduction parabola_objective (initial_bracket 1) (1 / 5) =
     (((0, golden_ratio, 2 * golden_ratio - 1, 1 - golden_ratio), True),
      [1 - golden_ratio, golden_ratio])"
proof -
  have 1: "(1 - golden_ratio - 1 / 10)\<^sup>2 < (golden_ratio - 1 / 10)\<^sup>2"
  proof -
    have "0 \<le> 9 / 10 - golden_ratio" "9 / 10 - golden_ratio < golden_ratio - 1 / 10"
      using golden_ratio_bounds by simp_all
    then have "(9 / 10 - golden_ratio)\<^sup>2 < (golden_ratio - 1 / 10)\<^sup>2"
      by (intro power_strict_mono) simp_all
    then show ?thesis by (simp add: algebra_simps)
  qed
  have 2: "golden_ratio - golden_ratio * golden_ratio = 2 * golden_ratio - 1"
    unfolding golden_ratio_square by simp
  have 3: "\<bar>3 * golden_ratio - 2\<bar> < 1 / 5"
    using golden_ratio_bounds by simp
  show ?thesis
    using 1 2 3 by (simp add: initial_bracket_def parabola_objective_def Let_def)
qed

lemma parabola_golden_search:
  "fst (golden_search parabola_objective 1 1024 (1 / 5)) = Inr (golden_ratio / 2)"
proof -
  have "scan_until (\<lambda>s. interval_reduction parabola_objective s (1 / 5)) (initial_bracket 1) (nat 1024)
          = ([(0, golden_ratio, 2 * golden_ratio - 1, 1 - golden_ratio)], [1 - golden_ratio, golden_ratio])"
    using scan_until_pos_stop [of "nat 1024" "\<lambda>s. interval_reduction parabola_objective s (1 / 5)"
        "initial_bracket 1", OF _ parabola_step]
    by simp
  then show ?thesis by (simp add: golden_search_def scan_def last_entry_def)
qed

text \<open>
  C6 as stated fails: the loop stops when the interior points are closer than \<open>tol\<close>,
  and then the bracket is still \<open>sqrt 5 + 2\<close> times as wide as their distance. On
  \<open>f x = (x - 1/10)\<^sup>2\<close> with \<open>maxstep = 1\<close>, \<open>tol = 1/5\<close> and \<open>maxiter = 1024\<close>
  the first iteration stops the search, and the result, about 0.309, is further than
  \<open>tol\<close> from the minimiser \<open>1/10\<close>.
\<close>

theorem golden_search_tolerance_counterexample:
  "fst (golden_search parabola_objective 1 1024 (1 / 5)) = Inr (golden_ratio / 2) \<and>
   1 / 5 < \<bar>golden_ratio / 2 - 1 / 10\<bar>"
  using parabola_golden_search golden_ratio_bounds by simp

lemma golden_bracket_points:
  assumes "golden_bracket (a, b, c, d)" "a \<le> b"
  shows "a \<le> c" "c \<le> d" "d \<le> b" "d - c = (sqrt 5 - 2) * (b - a)"
proof -
  have c: "c = b - golden_ratio * (b - a)" and d: "d = a + golden_ratio * (b - a)"
    using assms(1) by (simp_all add: golden_bracket_def)
  have w: "0 \<le> b - a" using assms(2) by simp
  have g: "golden_ratio * (b - a) \<le> 1 * (b - a)"
    using golden_ratio_bounds w by (intro mult_right_mono) simp_all
  have h: "1 / 2 * (b - a) \<le> golden_ratio * (b - a)"
    using golden_ratio_bounds w by (intro mult_right_mono) simp_all
  show "a \<le> c" using g c by simp
  show "d \<le> b" using g d by simp
  show "c \<le> d" using h c d by simp
  show "d - c = (sqrt 5 - 2) * (b - a)"
    unfolding c d by (simp add: golden_ratio_def algebra_simps)
qed

lemma bracket_within_initial: "0 \<le> bound \<Longrightarrow> bracket_within bound (initial_bracket bound)"
  using golden_bracket_initial [of bound]
  by (simp add: bracket_within_def initial_bracket_def)

lemma interval_reduction_within:
  assumes "bracket_within bound br" and "interval_reduction f br tol = ((br', stop), ev)"
  shows "bracket_within bound br'"
proof -
  obtain a b c d where br: "br = (a, b, c, d)" by (cases br)
  have g: "golden_bracket (a, b, c, d)" and r: "0 \<le> a" "a \<le> b" "b \<le> bound"
    using assms(1) by (simp_all add: bracket_within_def br)
  note p = golden_bracket_points [OF g r(2)]
  have g': "golden_bracket br'"
    using interval_reduction_golden [OF _ assms(2)] g br by simp
  show ?thesis
  proof (cases "T_lt (f c) (f d)")
    case True
    then have "br' = (a, d, d - golden_ratio * (d - a), c)"
      using assms(2) by (simp add: br Let_def)
    with g' p r show ?thesis by (simp add: bracket_within_def)
  next
    case False
    then have "br' = (c, b, d, c + golden_ratio * (b - c))"
      using assms(2) by (simp add: br Let_def)
    with g' p r show ?thesis by (simp add: bracket_within_def)
  qed
qed

lemma golden_search_range:
  assumes "0 \<le> bound" "1 \<le> maxiter"
  shows "\<exists>r. fst (golden_search f bound maxiter tol) = Inr r \<and> 0 \<le> r \<and> r \<le> bound"
proof -
  let ?outs = "fst (scan_until (\<lambda>s. interval_reduction f s tol) (initial_bracket bound) (nat maxiter))"
  have "\<forall>x \<in> set ?outs. bracket_within bound x"
    by (rule scan_until_invariant [where P = "bracket_within bound"])
       (auto intro: bracket_within_initial assms(1) interval_reduction_within)
  moreover have "?outs \<noteq> []" using assms(2) by (intro scan_until_nonempty) simp
  ultimately have "bracket_within bound (last ?outs)" by simp
  then have "0 \<le> (fst (last ?outs) + fst (snd (last ?outs))) / 2 \<and>
             (fst (last ?outs) + fst (snd (last ?outs))) / 2 \<le> bound"
    by (cases "last ?outs") (simp add: bracket_within_def)
  moreover have "fst (golden_search f bound maxiter tol) =
      Inr ((fst (last ?outs) + fst (snd (last ?outs))) / 2)"
    using assms(2) by (simp add: golden_search_ok Let_def)
  ultimately show ?thesis by blast
qed

lemma fmin_golden_search_range:
  assumes "0 < maxiter" "0 < minstep" "minstep < maxstep" "0 < tol"
  shows "\<exists>r. fst (fmin_golden_search f minstep maxstep maxiter tol) = Inr r \<and> 0 \<le> r \<and> r \<le> maxstep"
proof -
  have m: "1 \<le> maxiter" using assms(1) by simp
  obtain bound where b: "fst (interval_location f minstep maxstep maxiter) = Inr bound"
    and br: "minstep \<le> bound" "bound \<le> maxstep"
    using interval_location_range [OF assms(2,3) m] by blast
  have "0 \<le> bound" using br assms(2) by simp
  from golden_search_range [OF this m]
  obtain r where r: "fst (golden_search f bound maxiter tol) = Inr r" "0 \<le> r" "r \<le> bound"
    by blast
  obtain bound' best where
    "fst (interval_location f minstep maxstep maxiter) = Inr bound'"
    "fst (golden_search f bound' maxiter tol) = Inr best"
    "fmin_golden_search f minstep maxstep maxiter tol =
       (Inr best, snd (interval_location f minstep maxstep maxiter) @ snd (golden_search f bound' maxiter tol))"
    using fmin_golden_search_valid [OF m assms(2) _ assms(4,3), of f] assms(2,3) by auto
  with b r have "fst (fmin_golden_search f minstep maxstep maxiter tol) = Inr r" by simp
  with r br show ?thesis by auto
qed

text \<open>
  C10: for every valid input the result of \<open>fmin_golden_search\<close> lies between 0 and
  \<open>maxstep\<close>; and it need not reach \<open>minstep\<close>: there is a valid input, with a
  strictly increasing objective, on which the result is strictly below \<open>minstep\<close>
  (the objective \<open>f x = x\<close> with \<open>minstep = 1\<close>, \<open>maxstep = 50\<close>, \<open>maxiter = 1\<close>,
  \<open>tol = 1\<close> gives \<open>golden_ratio\<close>, about 0.618).
\<close>

theorem fmin_golden_search_below_minstep:
  "(0 < maxiter \<and> 0 < minstep \<and> minstep < maxstep \<and> 0 < tol \<longrightarrow>
      (\<exists>r. fst (fmin_golden_search f minstep maxstep maxiter tol) = Inr r \<and> 0 \<le> r \<and> r \<le> maxstep)) \<and>
   (\<exists>g lo hi n eps r. 0 < n \<and> 0 < lo \<and> lo < hi \<and> 0 < eps \<and>
      (\<forall>x y. x < y \<longrightarrow> T_lt (g x) (g y)) \<and>
      fst (fmin_golden_search g lo hi n eps) = Inr r \<and> r < lo)"
proof (intro conjI impI)
  assume "0 < maxiter \<and> 0 < minstep \<and> minstep < maxstep \<and> 0 < tol"
  then show "\<exists>r. fst (fmin_golden_search f minstep maxstep maxiter tol) = Inr r \<and> 0 \<le> r \<and> r \<le> maxstep"
    using fmin_golden_search_range [of maxiter minstep maxstep tol f] by simp
next
  have "(0::int) < 1 \<and> (0::real) < 1 \<and> (1::real) < 50 \<and> (0::real) < 1 \<and>
      (\<forall>x y. x < y \<longrightarrow> T_lt (rising_objective x) (rising_objective y)) \<and>
      fst (fmin_golden_search rising_objective 1 50 1 1) = Inr golden_ratio \<and> golden_ratio < 1"
    using golden_ratio_bounds by (simp add: rising_fmin rising_objective_def)
  then show "\<exists>g lo hi n eps r. 0 < n \<and> 0 < lo \<and> lo < hi \<and> 0 < eps \<and>
      (\<forall>x y. x < y \<longrightarrow> T_lt (g x) (g y)) \<and>
      fst (fmin_golden_search g lo hi n eps) = Inr r \<and> r < lo"
    by blast
qed

theorem fmin_golden_search_below_minstep_witness:
  "(0::int) < 1 \<and> (0::real) < 1 \<and> (1::real) < 50 \<and> (0::real) < 1 \<and>
   (\<exists>r. fst (fmin_golden_search rising_objective 1 50 1 1) = Inr r \<and> 0 \<le> r \<and> r \<le> 50)"
  using fmin_golden_search_below_minstep [of 1 1 50 1 rising_objective, THEN conjunct1]
  by simp

section \<open>Unimodal objectives\<close>

lemma scan_until_stopped:
  assumes "\<And>s s' ev. fn s = ((s', True), ev) \<Longrightarrow> Q s'"
  shows "0 < n \<Longrightarrow> Q (last (fst (scan_until fn s n))) \<or> length (fst (scan_until fn s n)) = n"
proof (induction n arbitrary: s)
  case 0
  then show ?case by simp
next
  case (Suc n)
  obtain s' stop ev where fn: "fn s = ((s', stop), ev)"
    by (metis surj_pair)
  show ?case
  proof (cases stop)
    case True
    with fn assms [of s s' ev] show ?thesis by (simp add: scan_until_Suc_stop)
  next
    case False
    show ?thesis
    proof (cases "n = 0")
      case True
      with fn False show ?thesis by (simp add: scan_until_Suc_go)
    next
      case n: False
      then have "fst (scan_until fn s' n) \<noteq> []" by (intro scan_until_nonempty) simp
      with fn False Suc.IH [of s'] n show ?thesis by (simp add: scan_until_Suc_go)
    qed
  qed
qed

lemma scan_until_width:
  "golden_bracket s \<Longrightarrow>
   width (last (s # fst (scan_until (\<lambda>s. interval_reduction f s tol) s n))) =
     golden_ratio ^ length (fst (scan_until (\<lambda>s. interval_reduction f s tol) s n)) * width s"
proof (induction n arbitrary: s)
  case 0
  then show ?case by simp
next
  case (Suc n)
  let ?fn = "\<lambda>s. interval_reduction f s tol"
  obtain s' stop ev where fn: "?fn s = ((s', stop), ev)"
    by (metis surj_pair)
  have g: "golden_bracket s'" and w: "width s' = golden_ratio * width s"
    using interval_reduction_golden [OF Suc.prems fn] interval_reduction_width [OF Suc.prems fn]
    by simp_all
  show ?case
  proof (cases stop)
    case True
    with fn w show ?thesis by (simp add: scan_until_Suc_stop)
  next
    case False
    with fn w Suc.IH [OF g] show ?thesis by (simp add: scan_until_Suc_go)
  qed
qed

lemma interval_reduction_around:
  assumes dec: "\<forall>x y. 0 \<le> x \<and> x < y \<and> y \<le> m \<longrightarrow> T_lt (f y) (f x)"
    and inc: "\<forall>x y. m \<le> x \<and> x < y \<and> y \<le> bound \<longrightarrow> T_lt (f x) (f y)"
    and "bracket_around m bound br" and "interval_reduction f br tol = ((br', stop), ev)"
  shows "bracket_around m bound br'"
proof -
  obtain a b c d where br: "br = (a, b, c, d)" by (cases br)
  have w: "bracket_within bound (a, b, c, d)" and r: "a \<le> m" "m \<le> b"
    using assms(3) by (simp_all add: bracket_around_def br)
  have g: "golden_bracket (a, b, c, d)" and r': "0 \<le> a" "a \<le> b" "b \<le> bound"
    using w by (simp_all add: bracket_within_def)
  note p = golden_bracket_points [OF g r'(2)]
  have w': "bracket_within bound br'"
    using interval_reduction_within [OF _ assms(4)] w br by simp
  show ?thesis
  proof (cases "T_lt (f c) (f d)")
    case True
    then have br': "br' = (a, d, d - golden_ratio * (d - a), c)"
      using assms(4) by (simp add: br Let_def)
    have "m \<le> d"
    proof (rule ccontr)
      assume "\<not> m \<le> d"
      then have dm: "d < m" by simp
      have "c \<noteq> d" using True T_lt_irrefl by metis
      with p have "c < d" by simp
      with dm r' p have "T_lt (f d) (f c)" using dec by simp
      with True show False using T_lt_asym by blast
    qed
    with w' r br' show ?thesis by (simp add: bracket_around_def)
  next
    case False
    then have br': "br' = (c, b, d, c + golden_ratio * (b - c))"
      using assms(4) by (simp add: br Let_def)
    have "c \<le> m"
    proof (rule ccontr)
      assume "\<not> c \<le> m"
      then have mc: "m < c" by simp
      have "c < d"
      proof (rule ccontr)
        assume "\<not> c < d"
        with p have "d - c = 0" by simp
        with p(4) sqrt5_bounds have "b - a = 0" by simp
        with p r mc show False by simp
      qed
      with mc r' p have "T_lt (f c) (f d)" using inc by simp
      with False show False by simp
    qed
    with w' r br' show ?thesis by (simp add: bracket_around_def)
  qed
qed

lemma sqrt5_inverse: "(sqrt 5 - 2) * (sqrt 5 + 2) = 1"
proof -
  have "sqrt 5 * sqrt 5 = 5" by simp
  then show ?thesis by (simp add: algebra_simps)
qed

text \<open>
  C6, as amended: in exact real arithmetic, for every objective that is strictly
  decreasing from 0 to \<open>m\<close> and strictly increasing from \<open>m\<close> to \<open>maxstep\<close> (as a
  convex objective with its only minimum at \<open>m\<close> is), with \<open>0 \<le> m \<le> maxstep\<close>,
  \<open>tol > 0\<close> and an iteration budget \<open>maxiter \<ge> 1\<close> large enough that
  \<open>(sqrt 5 - 2) * golden_ratio ^ maxiter * maxstep < tol\<close>, \<open>golden_search\<close> returns a
  value within \<open>(sqrt 5 + 2) / 2 * tol\<close>, about \<open>2.118 * tol\<close>, of \<open>m\<close>.
\<close>

theorem golden_search_unimodal:
  assumes "0 \<le> m" "m \<le> maxstep" "0 < tol" "1 \<le> maxiter"
    and dec: "\<forall>x y. 0 \<le> x \<and> x < y \<and> y \<le> m \<longrightarrow> T_lt (f y) (f x)"
    and inc: "\<forall>x y. m \<le> x \<and> x < y \<and> y \<le> maxstep \<longrightarrow> T_lt (f x) (f y)"
    and budget: "(sqrt 5 - 2) * (golden_ratio ^ nat maxiter * maxstep) < tol"
  shows "\<exists>r. fst (golden_search f maxstep maxiter tol) = Inr r \<and>
             \<bar>r - m\<bar> < (sqrt 5 + 2) / 2 * tol"
proof -
  let ?fn = "\<lambda>s. interval_reduction f s tol"
  let ?s = "initial_bracket maxstep"
  let ?n = "nat maxiter"
  let ?outs = "fst (scan_until ?fn ?s ?n)"
  have n: "0 < ?n" using assms(4) by simp
  have ne: "?outs \<noteq> []" using n by (rule scan_until_nonempty)
  have s: "bracket_around m maxstep ?s"
    using bracket_within_initial [of maxstep] assms(1,2)
    by (simp add: bracket_around_def initial_bracket_def)
  have "\<forall>x \<in> set ?outs. bracket_around m maxstep x"
    by (rule scan_until_invariant [where P = "bracket_around m maxstep"])
       (auto intro: s interval_reduction_around [OF dec inc])
  with ne have around: "bracket_around m maxstep (last ?outs)" by simp
  obtain a b c d where l: "last ?outs = (a, b, c, d)" by (cases "last ?outs")
  have w: "bracket_within maxstep (a, b, c, d)" and r: "a \<le> m" "m \<le> b"
    using around l by (simp_all add: bracket_around_def)
  have g: "golden_bracket (a, b, c, d)" and ab: "a \<le> b"
    using w by (simp_all add: bracket_within_def)
  note p = golden_bracket_points [OF g ab]
  have small: "(sqrt 5 - 2) * (b - a) < tol"
  proof -
    have "(case last ?outs of (a, b, c, d) \<Rightarrow> \<bar>c - d\<bar> < tol) \<or> length ?outs = ?n"
    proof (rule scan_until_stopped [OF _ n])
      fix s s' :: bracket and ev
      assume "interval_reduction f s tol = ((s', True), ev)"
      then show "case s' of (a, b, c, d) \<Rightarrow> \<bar>c - d\<bar> < tol"
        by (cases s) (auto simp: Let_def split: if_splits)
    qed
    then show ?thesis
    proof
      assume "case last ?outs of (a, b, c, d) \<Rightarrow> \<bar>c - d\<bar> < tol"
      then have "\<bar>c - d\<bar> < tol" by (simp add: l)
      with p show ?thesis by simp
    next
      assume len: "length ?outs = ?n"
      have "width (last (?s # ?outs)) = golden_ratio ^ length ?outs * width ?s"
        by (rule scan_until_width) (rule golden_bracket_initial)
      then have "b - a = golden_ratio ^ ?n * maxstep"
        using ne l len by (simp add: width_def initial_bracket_def)
      with budget show ?thesis by simp
    qed
  qed
  have "(sqrt 5 + 2) * ((sqrt 5 - 2) * (b - a)) = ((sqrt 5 - 2) * (sqrt 5 + 2)) * (b - a)"
    by (simp only: ac_simps)
  then have "(b - a) = (sqrt 5 + 2) * ((sqrt 5 - 2) * (b - a))"
    by (simp only: sqrt5_inverse mult_1)
  also have "\<dots> < (sqrt 5 + 2) * tol"
    using small sqrt5_bounds by (intro mult_strict_left_mono) simp_all
  finally have wid: "b - a < (sqrt 5 + 2) * tol" .
  have "\<bar>(a + b) / 2 - m\<bar> \<le> (b - a) / 2" using r by (simp add: abs_le_iff field_simps)
  also have "\<dots> < (sqrt 5 + 2) / 2 * tol" using wid by simp
  finally have "\<bar>(a + b) / 2 - m\<bar> < (sqrt 5 + 2) / 2 * tol" .
  moreover have "fst (golden_search f maxstep maxiter tol) = Inr ((a + b) / 2)"
    using assms(4) l by (simp add: golden_search_ok Let_def)
  ultimately show ?thesis by blast
qed

lemma parabola10_falls:
  "\<forall>x y. 0 \<le> x \<and> x < y \<and> y \<le> 10 \<longrightarrow> T_lt (parabola10_objective y) (parabola10_objective x)"
proof (intro allI impI)
  fix x y :: real
  assume a: "0 \<le> x \<and> x < y \<and> y \<le> 10"
  then have "(10 - y)\<^sup>2 < (10 - x)\<^sup>2"
    by (intro power_strict_mono) simp_all
  then show "T_lt (parabola10_objective y) (parabola10_objective x)"
    by (simp add: parabola10_objective_def power2_commute [of _ 10])
qed

lemma parabola10_rises:
  "\<forall>x y. 10 \<le> x \<and> x < y \<and> y \<le> 50 \<longrightarrow> T_lt (parabola10_objective x) (parabola10_objective y)"
proof (intro allI impI)
  fix x y :: real
  assume a: "10 \<le> x \<and> x < y \<and> y \<le> 50"
  then have "(x - 10)\<^sup>2 < (y - 10)\<^sup>2"
    by (intro power_strict_mono) simp_all
  then show "T_lt (parabola10_objective x) (parabola10_objective y)"
    by (simp add: parabola10_objective_def)
qed

lemma budget_1024: "(sqrt 5 - 2) * (golden_ratio ^ nat 1024 * 50) < 1 / 100000"
proof -
  have "golden_ratio ^ nat 1024 \<le> (5 / 8) ^ nat 1024"
    using golden_ratio_bounds by (intro power_mono) simp_all
  also have "\<dots> \<le> (5 / 8 :: real) ^ 64"
    by (intro power_decreasing) simp_all
  also have "\<dots> < 1 / 1000000000000" by (simp add: power_divide)
  finally have g: "golden_ratio ^ nat 1024 * 50 < 1 / 100000" by simp
  have g0: "0 \<le> golden_ratio ^ nat 1024 * 50"
    using golden_ratio_bounds by simp
  have "(sqrt 5 - 2) * (golden_ratio ^ nat 1024 * 50) \<le> 1 * (golden_ratio ^ nat 1024 * 50)"
    using sqrt5_bounds g0 by (intro mult_right_mono) simp_all
  also have "\<dots> < 1 / 100000" using g by simp
  finally show ?thesis .
qed

theorem golden_search_unimodal_witness:
  "(0::real) \<le> 10 \<and> (10::real) \<le> 50 \<and> (0::real) < 1 / 100000 \<and> (1::int) \<le> 1024 \<and>
   (\<exists>r. fst (golden_search parabola10_objective 50 1024 (1 / 100000)) = Inr r \<and>
        \<bar>r - 10\<bar> < (sqrt 5 + 2) / 2 * (1 / 100000))"
proof -
  have "\<exists>r. fst (golden_search parabola10_objective 50 1024 (1 / 100000)) = Inr r \<and>
        \<bar>r - 10\<bar> < (sqrt 5 + 2) / 2 * (1 / 100000)"
    by (rule golden_search_unimodal [OF _ _ _ _ parabola10_falls parabola10_rises budget_1024])
       simp_all
  then show ?thesis by simp
qed

section \<open>Properties of LinearSearch\<close>

lemma np_where_isnan:
  "np_where (np_isnan e) PInf e = (if e = NaN then PInf else e)"
  by (simp add: np_where_def np_isnan_def)

text \<open>
  C2, as amended: the trial closure \<open>setup_new_step\<close> replaces an error that is NaN by
  positive infinity and returns every other error of the evaluator unchanged, the two
  infinities included; the value it returns is never NaN.
\<close>

theorem setup_new_step_nan:
  assumes "setup_new_step self params param_defaults new_step net = (y, net')"
  shows "(self_prediction_error self net' = NaN \<longrightarrow> y = PInf) \<and>
         (self_prediction_error self net' \<noteq> NaN \<longrightarrow> y = self_prediction_error self net') \<and>
         y \<noteq> NaN"
  using assms by (auto simp: setup_new_step_def Let_def np_where_isnan split: if_splits)

theorem setup_new_step_nan_witness:
  "fst (setup_new_step nan_search [0, 1] [1, 1] 2 example_net) = PInf \<and>
   fst (setup_new_step example_search [0, 1] [1, 1] 2 example_net) = Fin 1"
proof -
  obtain y net' where 1: "setup_new_step nan_search [0, 1] [1, 1] 2 example_net = (y, net')"
    by (cases "setup_new_step nan_search [0, 1] [1, 1] 2 example_net")
  have "self_prediction_error nan_search net' = NaN"
    by (simp add: nan_search_def nan_error_def)
  with setup_new_step_nan [OF 1] have "y = PInf" by blast
  with 1 have a: "fst (setup_new_step nan_search [0, 1] [1, 1] 2 example_net) = PInf" by simp
  obtain z net'' where 2: "setup_new_step example_search [0, 1] [1, 1] 2 example_net = (z, net'')"
    by (cases "setup_new_step example_search [0, 1] [1, 1] 2 example_net")
  then have n: "net'' = example_update (reset_params [0, 1] [1, 1] example_net\<lparr>step_value := 2\<rparr>)"
    by (simp add: setup_new_step_def Let_def example_search_def)
  have e: "self_prediction_error example_search net'' = Fin 1"
    unfolding n
    by (simp add: example_search_def example_error_def example_update_def reset_params_def
        set_value_def example_net_def)
  with setup_new_step_nan [OF 2] have "z = Fin 1" by simp
  with 2 a show ?thesis by simp
qed

text \<open>
  C2 as stated fails on negative infinity: \<open>np.isnan\<close> is false of it, so the closure
  returns it as it is.
\<close>

theorem setup_new_step_neg_inf_counterexample:
  "self_prediction_error diverged_search
     (snd (setup_new_step diverged_search [0, 1] [1, 1] 2 example_net)) = NInf \<and>
   fst (setup_new_step diverged_search [0, 1] [1, 1] 2 example_net) = NInf \<and>
   fst (setup_new_step diverged_search [0, 1] [1, 1] 2 example_net) \<noteq> PInf"
  by (simp add: setup_new_step_def Let_def np_where_isnan diverged_search_def diverged_error_def)

lemma reset_params_value:
  "var_value (reset_params params (map g params) net) k =
     (if k \<in> set params then g k else var_value net k)"
proof (induction params arbitrary: net)
  case Nil
  show ?case by (simp add: reset_params_def)
next
  case (Cons p ps)
  have "reset_params (p # ps) (map g (p # ps)) net = reset_params ps (map g ps) (set_value p (g p) net)"
    by (simp add: reset_params_def)
  then show ?case using Cons.IH [of "set_value p (g p) net"]
    by (auto simp: set_value_def)
qed

lemma fold_set_value_step:
  "step_value (fold (\<lambda>(param_default, param). set_value param param_default) xs net) = step_value net"
  by (induction xs arbitrary: net) (auto simp: set_value_def)

lemma reset_params_step:
  "step_value (reset_params params param_defaults net) = step_value net"
  by (simp add: reset_params_def fold_set_value_step)

lemma reset_params_snapshot:
  assumes "same_elsewhere params net0 net"
  shows "(reset_params params (map (var_value net0) params) net)\<lparr>step_value := x\<rparr>
           = net0\<lparr>step_value := x\<rparr>"
proof -
  have "var_value (reset_params params (map (var_value net0) params) net) = var_value net0"
    using assms by (auto simp: reset_params_value same_elsewhere_def)
  then show ?thesis by simp
qed

lemma setup_new_step_snapshot:
  assumes "same_elsewhere params net0 net"
  shows "setup_new_step self params (map (var_value net0) params) x net =
           (let net' = self_train_epoch self (net0\<lparr>step_value := x\<rparr>);
                error = self_prediction_error self net'
            in (np_where (np_isnan error) PInf error, net'))"
  by (simp add: setup_new_step_def reset_params_snapshot [OF assms] Let_def)

lemma setup_new_step_same_elsewhere:
  assumes frame: "\<forall>net k. k \<notin> set params \<longrightarrow> var_value (self_train_epoch self net) k = var_value net k"
    and "same_elsewhere params net0 net"
  shows "same_elsewhere params net0 (snd (setup_new_step self params (map (var_value net0) params) x net))"
  using frame by (simp add: setup_new_step_snapshot [OF assms(2)] Let_def same_elsewhere_def)

lemma run_minimizer_same_elsewhere:
  assumes frame: "\<forall>net k. k \<notin> set params \<longrightarrow> var_value (self_train_epoch self net) k = var_value net k"
  shows "same_elsewhere params net0 net \<Longrightarrow>
         same_elsewhere params net0
           (snd (run_minimizer res (setup_new_step self params (map (var_value net0) params)) net))"
proof (induction res arbitrary: net)
  case (Result x)
  then show ?case by simp
next
  case (Trial x k)
  let ?closure = "setup_new_step self params (map (var_value net0) params)"
  obtain y net' where c: "?closure x net = (y, net')" by (cases "?closure x net")
  have "same_elsewhere params net0 net'"
    using setup_new_step_same_elsewhere [OF frame Trial.prems, of x] c by simp
  then have "same_elsewhere params net0 (snd (run_minimizer (k y) ?closure net'))"
    by (intro Trial.IH) simp_all
  with c show ?case by simp
qed

text \<open>
  C8: in \<open>train_epoch\<close>, with the snapshot \<open>param_defaults\<close> taken from the state
  \<open>net0\<close> at the start of the epoch, and a training update that writes the trainable
  parameters only (they are the variables of its update list): every call of the trial
  closure, from whatever state, first sets every trainable parameter to its snapshot
  value and then applies one training update at the new step, so a trial from a state
  left by earlier trials is the trial from \<open>net0\<close>; and when \<open>train_epoch\<close> returns,
  the state is the one update at the step \<open>best_step\<close> that the minimizer answered,
  applied to \<open>net0\<close>, and the value returned is the closure's error of that state.
\<close>

theorem train_epoch_commits_one_update:
  assumes frame: "\<forall>net k. k \<notin> set params \<longrightarrow> var_value (self_train_epoch self net) k = var_value net k"
    and params: "params = self_train_params self"
    and defaults: "param_defaults = map (var_value net0) params"
    and res: "res = minimize_scalar (self_tol self) (self_search_method self)
                      (self_tol self) (self_maxiter self)"
    and best: "best_step = fst (run_minimizer res (setup_new_step self params param_defaults) net0)"
  shows "(\<forall>net. \<forall>param \<in> set params.
            var_value (reset_params params param_defaults net) param = var_value net0 param) \<and>
         (\<forall>new_step net.
            snd (setup_new_step self params param_defaults new_step net)
              = self_train_epoch self
                  ((reset_params params param_defaults net)\<lparr>step_value := new_step\<rparr>)) \<and>
         (\<forall>new_step net.
            (\<forall>k. k \<notin> set params \<longrightarrow> var_value net k = var_value net0 k) \<longrightarrow>
            setup_new_step self params param_defaults new_step net
              = setup_new_step self params param_defaults new_step net0) \<and>
         snd (train_epoch self minimize_scalar net0)
           = self_train_epoch self (net0\<lparr>step_value := best_step\<rparr>) \<and>
         fst (train_epoch self minimize_scalar net0)
           = np_where (np_isnan (self_prediction_error self (snd (train_epoch self minimize_scalar net0))))
               PInf (self_prediction_error self (snd (train_epoch self minimize_scalar net0)))"
proof (intro conjI)
  let ?closure = "setup_new_step self params param_defaults"
  show "\<forall>net. \<forall>param \<in> set params.
          var_value (reset_params params param_defaults net) param = var_value net0 param"
    unfolding defaults by (simp add: reset_params_value)
  show "\<forall>new_step net. snd (?closure new_step net)
          = self_train_epoch self ((reset_params params param_defaults net)\<lparr>step_value := new_step\<rparr>)"
    by (simp add: setup_new_step_def Let_def)
  have self0: "same_elsewhere params net0 net0" by (simp add: same_elsewhere_def)
  show "\<forall>new_step net.
          (\<forall>k. k \<notin> set params \<longrightarrow> var_value net k = var_value net0 k) \<longrightarrow>
          ?closure new_step net = ?closure new_step net0"
  proof (intro allI impI)
    fix new_step and net :: "('a, 'b) network"
    assume "\<forall>k. k \<notin> set params \<longrightarrow> var_value net k = var_value net0 k"
    then have "same_elsewhere params net0 net" by (simp add: same_elsewhere_def)
    from setup_new_step_snapshot [OF this] setup_new_step_snapshot [OF self0]
    show "?closure new_step net = ?closure new_step net0"
      unfolding defaults by simp
  qed
  obtain x net' where r: "run_minimizer res ?closure net0 = (x, net')"
    by (cases "run_minimizer res ?closure net0")
  have x: "x = best_step" using r best by simp
  from run_minimizer_same_elsewhere [OF frame self0, of res] r
  have se: "same_elsewhere params net0 net'"
    unfolding defaults by simp
  have t: "train_epoch self minimize_scalar net0 = ?closure x net'"
    using r by (simp add: train_epoch_def Let_def params [symmetric] defaults [symmetric] res [symmetric])
  show "snd (train_epoch self minimize_scalar net0) = self_train_epoch self (net0\<lparr>step_value := best_step\<rparr>)"
    unfolding t defaults x by (simp add: setup_new_step_snapshot [OF se] Let_def)
  show "fst (train_epoch self minimize_scalar net0)
          = np_where (np_isnan (self_prediction_error self (snd (train_epoch self minimize_scalar net0))))
              PInf (self_prediction_error self (snd (train_epoch self minimize_scalar net0)))"
    unfolding t defaults x by (simp add: setup_new_step_snapshot [OF se] Let_def)
qed

lemma example_first_trial:
  "setup_new_step example_search [0, 1] (map (var_value example_net) [0, 1]) 2 example_net =
     (Fin 1, example_update (example_net\<lparr>step_value := 2\<rparr>))"
proof -
  have "same_elsewhere [0, 1] example_net example_net" by (simp add: same_elsewhere_def)
  from setup_new_step_snapshot [OF this, of example_search 2]
  show ?thesis
    by (simp add: Let_def example_search_def example_error_def example_update_def
        example_net_def np_where_isnan)
qed

lemma example_second_trial:
  "fst (setup_new_step example_search [0, 1] (map (var_value example_net) [0, 1]) (1 / 2)
          (example_update (example_net\<lparr>step_value := 2\<rparr>))) = Fin (1 / 4)"
proof -
  have "same_elsewhere [0, 1] example_net (example_update (example_net\<lparr>step_value := 2\<rparr>))"
    by (simp add: same_elsewhere_def example_update_def)
  from setup_new_step_snapshot [OF this, of example_search "1 / 2"]
  show ?thesis
    by (simp add: Let_def example_search_def example_error_def example_update_def
        example_net_def np_where_isnan power2_eq_square)
qed

lemma example_best_step:
  "fst (run_minimizer (example_minimize (1 / 10) golden (1 / 10) 1024)
          (setup_new_step example_search [0, 1] (map (var_value example_net) [0, 1]))
          example_net) = 1 / 2"
proof -
  let ?closure = "setup_new_step example_search [0, 1] (map (var_value example_net) [0, 1])"
  let ?net1 = "example_update (example_net\<lparr>step_value := 2\<rparr>)"
  obtain y net2 where 2: "?closure (1 / 2) ?net1 = (y, net2)"
    by (cases "?closure (1 / 2) ?net1")
  with example_second_trial have y: "y = Fin (1 / 4)" by simp
  show ?thesis
    unfolding example_minimize_def run_minimizer.simps example_first_trial prod.case 2
    by (simp add: y)
qed

theorem train_epoch_commits_one_update_witness:
  "var_value (reset_params [0, 1] (map (var_value example_net) [0, 1])
                (example_update (example_net\<lparr>step_value := 2\<rparr>))) 0 = var_value example_net 0 \<and>
   snd (train_epoch example_search example_minimize example_net)
     = example_update (example_net\<lparr>step_value := 1 / 2\<rparr>) \<and>
   var_value (snd (train_epoch example_search example_minimize example_net)) 0 = 1 / 2 \<and>
   fst (train_epoch example_search example_minimize example_net) = Fin (1 / 4)"
proof -
  have frame: "\<forall>net k. k \<notin> set [0, 1] \<longrightarrow> var_value (self_train_epoch example_search net) k = var_value net k"
    by (simp add: example_search_def example_update_def)
  have params: "[0, 1] = self_train_params example_search"
    by (simp add: example_search_def)
  have res: "example_minimize (1 / 10) golden (1 / 10) 1024 =
      example_minimize (self_tol example_search) (self_search_method example_search)
        (self_tol example_search) (self_maxiter example_search)"
    by (simp add: example_search_def)
  note t = train_epoch_commits_one_update
    [where params = "[0, 1]" and self = example_search
       and param_defaults = "map (var_value example_net) [0, 1]" and ?net0.0 = example_net
       and res = "example_minimize (1 / 10) golden (1 / 10) 1024"
       and minimize_scalar = example_minimize and best_step = "1 / 2",
     OF frame params refl res example_best_step [symmetric]]
  have 1: "var_value (reset_params [0, 1] (map (var_value example_net) [0, 1])
                (example_update (example_net\<lparr>step_value := 2\<rparr>))) 0 = var_value example_net 0"
    using t [THEN conjunct1] by simp
  have 2: "snd (train_epoch example_search example_minimize example_net)
     = example_update (example_net\<lparr>step_value := 1 / 2\<rparr>)"
    using t [THEN conjunct2, THEN conjunct2, THEN conjunct2, THEN conjunct1]
    by (simp add: example_search_def)
  have 3: "var_value (snd (train_epoch example_search example_minimize example_net)) 0 = 1 / 2"
    unfolding 2 by (simp add: example_update_def example_net_def)
  have 4: "fst (train_epoch example_search example_minimize example_net) = Fin (1 / 4)"
    using t [THEN conjunct2, THEN conjunct2, THEN conjunct2, THEN conjunct2]
    unfolding 2
    by (simp add: example_search_def example_error_def example_update_def example_net_def
        np_where_isnan power2_eq_square)
  from 1 2 3 4 show ?thesis by simp
qed

end
